theory Spec2Isabelle
  imports Main "HOL-Library.Word"
begin

unbundle bit_operations_syntax

section \<open>Calls to collaborators\<close>

text \<open>
  Both source files drive the graphics backend, the logger, the entity-component system
  and the editing system through calls whose bodies live outside the two files. The
  model records each such call, in program order, as an element of a trace, so that a
  statement such as "no render pass is started" or "nothing is selected" is a statement
  about the trace of one invocation.

  \<open>gfx::view_id\<close> is declared outside the two files; the backend's view identifier is an
  unsigned 16-bit integer. The counter below never leaves the range 0..255 once it has
  been reset, so no result depends on the width chosen.
\<close>

type_synonym view_id = "16 word"
type_synonym u8 = "8 word"
type_synonym u32 = "32 word"

datatype call =
    Frame
  | Reset_view view_id
  | Set_view_name view_id string
  | Set_view_rect view_id
  | Set_view_scissor view_id
  | Set_view_frame_buffer view_id
  | Touch view_id
  | Set_view_clear view_id
  | Set_view_transform view_id
  | Model_render view_id u32 u32 u32
  | Applog_warning string
  | Blit view_id
  | Read_texture
  | Select u32
  | Unselect

section \<open>render\_pass.cpp: the view slot allocator\<close>

text \<open>The two file-level statics \<open>s_index\<close> and \<open>s_last_index\<close>, both initialised to 0.\<close>

record allocator =
  s_index :: view_id
  s_last_index :: view_id

definition allocator_init :: allocator where
  "allocator_init = \<lparr>s_index = 0, s_last_index = 0\<rparr>"

text \<open>
  \<open>generate_id\<close>: when the counter equals 255 the frame is submitted and the counter
  restarts at 0; the value handed out is the counter before its post-increment, and it
  is remembered in \<open>s_last_index\<close>. The result is the identifier, the calls made and the
  new statics.
\<close>

definition generate_id :: "allocator \<Rightarrow> view_id \<times> call list \<times> allocator" where
  "generate_id a =
     (let (cs, a1) = (if s_index a = 255 then ([Frame], a\<lparr>s_index := 0\<rparr>) else ([], a));
          idx = s_index a1;
          a2 = a1\<lparr>s_index := s_index a1 + 1\<rparr>;
          a3 = a2\<lparr>s_last_index := idx\<rparr>
      in (idx, cs, a3))"

text \<open>\<open>render_pass::get_pass\<close> returns \<open>s_last_index\<close>.\<close>

definition get_pass :: "allocator \<Rightarrow> view_id" where
  "get_pass a = s_last_index a"

text \<open>
  \<open>render_pass::reset\<close>: the loop variable is a \<open>std::uint8_t\<close> compared against the
  counter, so the loop ends exactly when the counter is at most 255 (a larger counter
  is never reached by the 8-bit variable, and the call does not return: \<open>None\<close>).
\<close>

definition reset :: "allocator \<Rightarrow> (call list \<times> allocator) option" where
  "reset a =
     (if s_index a \<le> 255
      then Some (map (\<lambda>i. Reset_view (of_nat i)) [0 ..< unat (s_index a)],
                 \<lparr>s_index = 0, s_last_index = 0\<rparr>)
      else None)"

text \<open>
  \<open>n\<close> consecutive calls of \<open>generate_id\<close>. For each call the log keeps the value
  returned, the calls it made, and what \<open>get_pass\<close> answers right after it.
\<close>

fun allocate_n :: "nat \<Rightarrow> allocator \<Rightarrow> (view_id \<times> call list \<times> view_id) list \<times> allocator" where
  "allocate_n 0 a = ([], a)"
| "allocate_n (Suc n) a =
     (case generate_id a of (idx, cs, a') \<Rightarrow>
        (case allocate_n n a' of (log, a'') \<Rightarrow> ((idx, cs, get_pass a') # log, a'')))"

section \<open>picking\_system.cpp: the pick request, the readback and the decode\<close>

text \<open>
  The members of \<open>picking_system\<close> that \<open>frame_render\<close> assigns: \<open>_reading\<close>, the frame
  number returned by the texture read (0 when no read is outstanding), and
  \<open>_start_readback\<close>. The class declaration is outside the two files; \<open>_reading\<close> and the
  renderer's frame counter are taken as unsigned 32-bit integers, the type the texture
  read returns. The member array \<open>_blit_data\<close> is filled by the graphics backend between
  invocations; its contents are an input of each invocation.
\<close>

record picking_system =
  reading :: u32
  start_readback :: bool

text \<open>
  One entity visited by \<open>ecs.for_each<transform_component, model_component>\<close>: its index
  and the three tests that guard the draw.
\<close>

record candidate =
  entity_index :: u32
  model_is_valid :: bool
  has_lod0 :: bool
  obb_in_frustum :: bool

text \<open>
  What one invocation of \<open>frame_render\<close> reads from its collaborators: the renderer's
  frame counter, the input state, the gizmo and the current selection, the editor
  camera and its two un-projections, the entities, the capability bit, the frame number
  the texture read answers, the renderer type, the staging bytes, and the two tests of
  the entity-component system (\<open>valid_index\<close>, and whether the entity obtained from
  \<open>create_id\<close> and \<open>get\<close> tests true).
\<close>

record frame_inputs =
  render_frame :: u32
  mouse_left_pressed :: bool
  gizmo_is_over :: bool
  selection_object :: bool
  camera_present :: bool
  near_unprojects :: bool
  far_unprojects :: bool
  renderables :: "candidate list"
  blit_support :: bool
  read_texture_frame :: u32
  is_direct3d9 :: bool
  blit_data :: "u8 list"
  valid_index :: "u32 \<Rightarrow> bool"
  entity_alive :: "u32 \<Rightarrow> bool"

subsection \<open>Render pass construction and binding (render\_pass.cpp)\<close>

definition render_pass :: "string \<Rightarrow> allocator \<Rightarrow> view_id \<times> call list \<times> allocator" where
  "render_pass n a =
     (case generate_id a of (idx, cs, a') \<Rightarrow> (idx, cs @ [Set_view_name idx n], a'))"

text \<open>\<open>render_pass::bind(fb)\<close>; the flag says whether \<open>fb\<close> is non-null.\<close>

definition bind :: "view_id \<Rightarrow> bool \<Rightarrow> call list" where
  "bind idx fb_present =
     (if \<not> fb_present then []
      else [Set_view_rect idx, Set_view_scissor idx, Set_view_frame_buffer idx, Touch idx])"

subsection \<open>The colour of an entity\<close>

text \<open>
  The three numerators of the \<open>u_id\<close> uniform (lines 102-105). The fragment stage writes
  each of them, divided by 255, into an 8-bit channel; \<open>color_bytes\<close> is the byte triple
  that reaches the RGBA8 target.
\<close>

definition color_id :: "u32 \<Rightarrow> u32 \<times> u32 \<times> u32" where
  "color_id entity_idx =
     (entity_idx AND 0xff, drop_bit 8 entity_idx AND 0xff, drop_bit 16 entity_idx AND 0xff)"

definition color_bytes :: "u32 \<Rightarrow> u8 \<times> u8 \<times> u8" where
  "color_bytes entity_idx =
     (case color_id entity_idx of (rr, gg, bb) \<Rightarrow> (ucast rr, ucast gg, ucast bb))"

definition draw_entity :: "view_id \<Rightarrow> candidate \<Rightarrow> call list" where
  "draw_entity idx e =
     (if \<not> model_is_valid e then []
      else if \<not> has_lod0 e then []
      else if \<not> obb_in_frustum e then []
      else (case color_id (entity_index e) of (rr, gg, bb) \<Rightarrow> [Model_render idx rr gg bb]))"

subsection \<open>The click block (lines 33-112)\<close>

text \<open>
  Lines 76-111: the pass that fills the identity buffer, with one draw for each entity
  that passes the three tests.
\<close>

definition picking_buffer_fill :: "frame_inputs \<Rightarrow> allocator \<Rightarrow> call list \<times> allocator" where
  "picking_buffer_fill inp a =
     (case render_pass ''picking_buffer_fill'' a of (idx, cs, a') \<Rightarrow>
        (cs @ bind idx True @ [Set_view_clear idx, Set_view_transform idx]
            @ concat (map (draw_entity idx) (renderables inp)),
         a'))"

text \<open>
  The first component of the result says whether \<open>frame_render\<close> returned from inside
  the block.
\<close>

definition pick_request ::
  "frame_inputs \<Rightarrow> allocator \<Rightarrow> picking_system \<Rightarrow> bool \<times> call list \<times> allocator \<times> picking_system" where
  "pick_request inp a ps =
     (if mouse_left_pressed inp then
        (if gizmo_is_over inp \<and> selection_object inp then (True, [], a, ps)
         else if \<not> camera_present inp then (True, [], a, ps)
         else if \<not> near_unprojects inp then (True, [], a, ps)
         else if \<not> far_unprojects inp then (True, [], a, ps)
         else
           (let ps1 = ps\<lparr>reading := 0\<rparr>;
                ps2 = ps1\<lparr>start_readback := True\<rparr>
            in case picking_buffer_fill inp a of (cs, a') \<Rightarrow> (False, cs, a', ps2)))
      else (False, [], a, ps))"

subsection \<open>The blit block (lines 116-133)\<close>

text \<open>Lines 128-130 and the call of line 131: the blit pass and the texture read.\<close>

definition picking_buffer_blit :: "allocator \<Rightarrow> call list \<times> allocator" where
  "picking_buffer_blit a =
     (case render_pass ''picking_buffer_blit'' a of (idx, cs, a') \<Rightarrow>
        (cs @ [Blit idx, Read_texture], a'))"

definition start_blit ::
  "frame_inputs \<Rightarrow> allocator \<Rightarrow> picking_system \<Rightarrow> bool \<times> call list \<times> allocator \<times> picking_system" where
  "start_blit inp a ps =
     (if reading ps = 0 \<and> start_readback ps then
        (if blit_support inp = False then
           (True,
            [Applog_warning ''Texture blitting is not supported. Picking will not work''],
            a, ps\<lparr>start_readback := False\<rparr>)
         else
           (case picking_buffer_blit a of (cs, a') \<Rightarrow>
              (False, cs, a',
               ps\<lparr>reading := read_texture_frame inp, start_readback := False\<rparr>)))
      else (False, [], a, ps))"

subsection \<open>The decode block (lines 135-195)\<close>

text \<open>
  \<open>std::map<std::uint32_t, std::uint32_t>\<close> is an association list kept in ascending
  key order, which is the order its iteration follows. \<open>map_of\<close> is \<open>find\<close>;
  \<open>ids_assign\<close> is \<open>ids[hash_key] = amount\<close>.
\<close>

type_synonym histogram = "(u32 \<times> u32) list"

fun ids_assign :: "u32 \<Rightarrow> u32 \<Rightarrow> histogram \<Rightarrow> histogram" where
  "ids_assign k v [] = [(k, v)]"
| "ids_assign k v ((k', v') # rest) =
     (if k < k' then (k, v) # (k', v') # rest
      else if k = k' then (k, v) # rest
      else (k', v') # ids_assign k v rest)"

definition hash_key_of :: "u8 \<Rightarrow> u8 \<Rightarrow> u8 \<Rightarrow> u32" where
  "hash_key_of rr gg bb = ucast rr + push_bit 8 (ucast gg) + push_bit 16 (ucast bb)"

text \<open>One histogram update (lines 159-169) for a key.\<close>

definition count_key :: "u32 \<Rightarrow> histogram \<times> u32 \<Rightarrow> histogram \<times> u32" where
  "count_key hash_key st =
     (case st of (ids, max_amount) \<Rightarrow>
        (let amount = (case map_of ids hash_key of Some c \<Rightarrow> c + 1 | None \<Rightarrow> 1)
         in (ids_assign hash_key amount ids,
             if max_amount > amount then max_amount else amount)))"

text \<open>
  The loop over the staging bytes, four at a time; the flag is the test for the
  Direct3D9 renderer, under which the first and third byte change places.
\<close>

fun scan_texels :: "bool \<Rightarrow> u8 list \<Rightarrow> histogram \<times> u32 \<Rightarrow> histogram \<times> u32" where
  "scan_texels d3d9 (x0 # x1 # x2 # x3 # rest) st =
     (let rr = (if d3d9 then x2 else x0);
          gg = x1;
          bb = (if d3d9 then x0 else x2)
      in if 0 = ((ucast rr :: u32) OR ucast gg OR ucast bb)
         then scan_texels d3d9 rest st
         else scan_texels d3d9 rest (count_key (hash_key_of rr gg bb) st))"
| "scan_texels d3d9 _ st = st"

text \<open>
  The loop over the histogram (lines 175-189): it stops at the first pair whose count
  equals \<open>max_amount\<close>. The result is the final \<open>id_key\<close> and the calls made.
\<close>

fun pick_first ::
  "(u32 \<Rightarrow> bool) \<Rightarrow> (u32 \<Rightarrow> bool) \<Rightarrow> histogram \<Rightarrow> u32 \<Rightarrow> u32 \<Rightarrow> u32 \<times> call list" where
  "pick_first vi alive [] max_amount id_key = (id_key, [])"
| "pick_first vi alive ((k, c) # rest) max_amount id_key =
     (if c = max_amount
      then (k, if vi k then (if alive k then [Select k] else []) else [])
      else pick_first vi alive rest max_amount id_key)"

text \<open>
  \<open>tex_id_dim\<close> is a constant of the class declaration; it is a parameter here. The
  loop reads \<open>tex_id_dim * tex_id_dim * 4\<close> bytes.
\<close>

definition decode_buffer :: "nat \<Rightarrow> frame_inputs \<Rightarrow> u32 \<times> call list" where
  "decode_buffer tex_id_dim inp =
     (case scan_texels (is_direct3d9 inp)
             (take (tex_id_dim * tex_id_dim * 4) (blit_data inp)) ([], 0) of
        (ids, max_amount) \<Rightarrow>
          (if max_amount \<noteq> 0
           then pick_first (valid_index inp) (entity_alive inp) ids max_amount 0
           else (0, [Unselect])))"

text \<open>
  The second component is \<open>None\<close> when the block is not entered, and the final
  \<open>id_key\<close> when it is.
\<close>

definition decode_block ::
  "nat \<Rightarrow> frame_inputs \<Rightarrow> picking_system \<Rightarrow> call list \<times> u32 option \<times> picking_system" where
  "decode_block tex_id_dim inp ps =
     (if reading ps \<noteq> 0 \<and> reading ps \<le> render_frame inp
      then (case decode_buffer tex_id_dim inp of (id_key, cs) \<Rightarrow>
              (cs, Some id_key, ps\<lparr>reading := 0\<rparr>))
      else ([], None, ps))"

subsection \<open>frame\_render\<close>

text \<open>
  One invocation: the calls made, whether the decode block ran (and its \<open>id_key\<close>), and
  the statics and members afterwards.
\<close>

definition frame_render ::
  "nat \<Rightarrow> frame_inputs \<Rightarrow> allocator \<times> picking_system \<Rightarrow>
     call list \<times> u32 option \<times> allocator \<times> picking_system" where
  "frame_render tex_id_dim inp st =
     (case st of (a, ps) \<Rightarrow>
      (case pick_request inp a ps of (returned1, cs1, a1, ps1) \<Rightarrow>
         if returned1 then (cs1, None, a1, ps1)
         else (case start_blit inp a1 ps1 of (returned2, cs2, a2, ps2) \<Rightarrow>
                if returned2 then (cs1 @ cs2, None, a2, ps2)
                else (case decode_block tex_id_dim inp ps2 of (cs3, key, ps3) \<Rightarrow>
                        (cs1 @ cs2 @ cs3, key, a2, ps3)))))"

text \<open>Consecutive invocations, one per element of the list; the traces are kept apart.\<close>

fun run_frames ::
  "nat \<Rightarrow> frame_inputs list \<Rightarrow> allocator \<times> picking_system \<Rightarrow>
     (call list \<times> u32 option) list \<times> allocator \<times> picking_system" where
  "run_frames tex_id_dim [] st = ([], st)"
| "run_frames tex_id_dim (inp # inps) st =
     (case frame_render tex_id_dim inp st of (cs, key, st') \<Rightarrow>
        (case run_frames tex_id_dim inps st' of (log, st'') \<Rightarrow> ((cs, key) # log, st'')))"

subsection \<open>Vocabulary of the statements\<close>

text \<open>A click that passes every test of the click block.\<close>

definition click_accepted :: "frame_inputs \<Rightarrow> bool" where
  "click_accepted inp =
     (mouse_left_pressed inp \<and> (gizmo_is_over inp \<longrightarrow> \<not> selection_object inp)
      \<and> camera_present inp \<and> near_unprojects inp \<and> far_unprojects inp)"

text \<open>
  The colours the decode loop sees, one per texel, after the Direct3D9 exchange, and
  the keys it counts (one per texel that is not black).
\<close>

fun texel_colors :: "bool \<Rightarrow> u8 list \<Rightarrow> (u8 \<times> u8 \<times> u8) list" where
  "texel_colors d3d9 (x0 # x1 # x2 # x3 # rest) =
     (if d3d9 then (x2, x1, x0) else (x0, x1, x2)) # texel_colors d3d9 rest"
| "texel_colors d3d9 _ = []"

definition key_of :: "u8 \<times> u8 \<times> u8 \<Rightarrow> u32" where
  "key_of c = (case c of (rr, gg, bb) \<Rightarrow> hash_key_of rr gg bb)"

definition texel_keys :: "bool \<Rightarrow> u8 list \<Rightarrow> u32 list" where
  "texel_keys d3d9 buf = map key_of (filter (\<lambda>c. c \<noteq> (0, 0, 0)) (texel_colors d3d9 buf))"

definition staged :: "nat \<Rightarrow> frame_inputs \<Rightarrow> (u8 \<times> u8 \<times> u8) list" where
  "staged tex_id_dim inp =
     texel_colors (is_direct3d9 inp) (take (tex_id_dim * tex_id_dim * 4) (blit_data inp))"

definition idle :: picking_system where
  "idle = \<lparr>reading = 0, start_readback = False\<rparr>"

text \<open>Kinds of call, to read a trace with.\<close>

fun selection_call :: "call \<Rightarrow> bool" where
  "selection_call (Select k) = True"
| "selection_call Unselect = True"
| "selection_call _ = False"

fun warning_call :: "call \<Rightarrow> bool" where
  "warning_call (Applog_warning m) = True"
| "warning_call _ = False"

fun names_pass :: "string \<Rightarrow> call \<Rightarrow> bool" where
  "names_pass n (Set_view_name idx m) = (m = n)"
| "names_pass n _ = False"

fun readback_call :: "call \<Rightarrow> bool" where
  "readback_call (Blit idx) = True"
| "readback_call Read_texture = True"
| "readback_call _ = False"

text \<open>The parts of the result of \<open>frame_render\<close>.\<close>

definition calls_of :: "call list \<times> u32 option \<times> allocator \<times> picking_system \<Rightarrow> call list" where
  "calls_of r = fst r"

definition decoded_key :: "call list \<times> u32 option \<times> allocator \<times> picking_system \<Rightarrow> u32 option" where
  "decoded_key r = fst (snd r)"

definition allocator_after :: "call list \<times> u32 option \<times> allocator \<times> picking_system \<Rightarrow> allocator" where
  "allocator_after r = fst (snd (snd r))"

definition members_after :: "call list \<times> u32 option \<times> allocator \<times> picking_system \<Rightarrow> picking_system" where
  "members_after r = snd (snd (snd r))"

subsection \<open>Concrete inputs\<close>

text \<open>
  A frame with no click at renderer frame 5, one drawable entity of index 5, a one-texel
  staging buffer that is black, blit supported, and a texture read that answers frame 7;
  and the same frame with an accepted click.
\<close>

definition quiet_frame :: frame_inputs where
  "quiet_frame =
     \<lparr>render_frame = 5, mouse_left_pressed = False, gizmo_is_over = False,
      selection_object = False, camera_present = True, near_unprojects = True,
      far_unprojects = True,
      renderables = [\<lparr>entity_index = 5, model_is_valid = True, has_lod0 = True,
                      obb_in_frustum = True\<rparr>],
      blit_support = True, read_texture_frame = 7, is_direct3d9 = False,
      blit_data = [0, 0, 0, 255],
      valid_index = (\<lambda>i. i < 8), entity_alive = (\<lambda>i. True)\<rparr>"

definition click_frame :: frame_inputs where
  "click_frame = quiet_frame\<lparr>mouse_left_pressed := True\<rparr>"

text \<open>
  A readback that waits for frame 10; the clicked frame on a platform without blit; and
  a frame whose texture read answers 0.
\<close>

definition awaiting_10 :: picking_system where
  "awaiting_10 = \<lparr>reading = 10, start_readback = False\<rparr>"

definition click_frame_no_blit :: frame_inputs where
  "click_frame_no_blit = click_frame\<lparr>blit_support := False\<rparr>"

definition click_frame_no_read :: frame_inputs where
  "click_frame_no_read = click_frame\<lparr>read_texture_frame := 0\<rparr>"

text \<open>
  Frames at renderer frame 10 whose staging buffer holds: one texel of key 9, an index
  the entity-component system reports invalid; and (with \<open>tex_id_dim = 2\<close>) four texels,
  two of key 5, one of key 3 and one black; and two of key 6 and two of key 2.
\<close>

definition stale_frame :: frame_inputs where
  "stale_frame = quiet_frame\<lparr>render_frame := 10, blit_data := [9, 0, 0, 255]\<rparr>"

definition majority_frame :: frame_inputs where
  "majority_frame =
     quiet_frame\<lparr>render_frame := 10,
       blit_data := [5, 0, 0, 255, 3, 0, 0, 255, 0, 0, 0, 255, 5, 0, 0, 255]\<rparr>"

definition tie_frame :: frame_inputs where
  "tie_frame =
     quiet_frame\<lparr>render_frame := 10,
       blit_data := [6, 0, 0, 255, 2, 0, 0, 255, 2, 0, 0, 255, 6, 0, 0, 255]\<rparr>"

section \<open>The allocator: results\<close>

lemma generate_id_below:
  assumes "s_index a \<noteq> 255"
  shows "generate_id a = (s_index a, [], a\<lparr>s_index := s_index a + 1, s_last_index := s_index a\<rparr>)"
  using assms by (simp add: generate_id_def Let_def)

lemma generate_id_at_255:
  assumes "s_index a = 255"
  shows "generate_id a = (0, [Frame], a\<lparr>s_index := 1, s_last_index := 0\<rparr>)"
  using assms by (simp add: generate_id_def Let_def)

lemma allocate_n_append:
  "allocate_n (m + n) a =
     (case allocate_n m a of (l1, a1) \<Rightarrow>
        (case allocate_n n a1 of (l2, a2) \<Rightarrow> (l1 @ l2, a2)))"
  by (induction m arbitrary: a) (auto split: prod.splits)

lemma of_nat_neq_255:
  assumes "k < 255"
  shows "(of_nat k :: view_id) \<noteq> 255"
proof
  assume "(of_nat k :: view_id) = 255"
  then have "unat (of_nat k :: view_id) = unat (255 :: view_id)" by simp
  moreover have "unat (of_nat k :: view_id) = k"
    using assms by (simp add: unat_of_nat)
  ultimately show False using assms by simp
qed

lemma allocate_n_run:
  assumes "k + n \<le> 255"
  shows "allocate_n n \<lparr>s_index = of_nat k, s_last_index = l\<rparr> =
           (map (\<lambda>i. (of_nat i, [], of_nat i)) [k ..< k + n],
            \<lparr>s_index = of_nat (k + n), s_last_index = (if n = 0 then l else of_nat (k + n - 1))\<rparr>)"
  using assms
proof (induction n arbitrary: k l)
  case 0
  then show ?case by simp
next
  case (Suc n)
  have k: "k < 255" using Suc.prems by simp
  have step: "generate_id \<lparr>s_index = of_nat k, s_last_index = l\<rparr> =
                (of_nat k, [], \<lparr>s_index = of_nat (Suc k), s_last_index = of_nat k\<rparr>)"
    using of_nat_neq_255 [OF k] by (simp add: generate_id_below)
  have rest: "allocate_n n \<lparr>s_index = of_nat (Suc k), s_last_index = of_nat k\<rparr> =
           (map (\<lambda>i. (of_nat i, [], of_nat i)) [Suc k ..< Suc k + n],
            \<lparr>s_index = of_nat (Suc k + n),
             s_last_index = (if n = 0 then of_nat k else of_nat (Suc k + n - 1))\<rparr>)"
    using Suc.prems by (intro Suc.IH) simp
  have ups: "[k ..< k + Suc n] = k # [Suc k ..< Suc k + n]"
    by (simp add: upt_conv_Cons)
  have a: "allocate_n (Suc n) \<lparr>s_index = of_nat k, s_last_index = l\<rparr> =
          ((of_nat k, [], of_nat k) # map (\<lambda>i. (of_nat i, [], of_nat i)) [Suc k ..< Suc k + n],
           \<lparr>s_index = of_nat (Suc k + n),
            s_last_index = (if n = 0 then of_nat k else of_nat (Suc k + n - 1))\<rparr>)"
    by (simp only: allocate_n.simps step rest prod.case get_pass_def allocator.simps)
  have b: "Suc k + n = k + Suc n" by simp
  have c: "(if n = 0 then (of_nat k :: view_id) else of_nat (k + Suc n - 1)) = of_nat (k + Suc n - 1)"
    by (cases n) simp_all
  show ?case
    by (simp only: a ups list.map b c nat.simps if_False)
qed

lemma allocate_255:
  "allocate_n 255 allocator_init =
     (map (\<lambda>i. (of_nat i, [], of_nat i)) [0 ..< 255], \<lparr>s_index = 255, s_last_index = 254\<rparr>)"
  using allocate_n_run [of 0 255 0] by (simp add: allocator_init_def)

lemma allocate_256:
  "allocate_n 256 allocator_init =
     (map (\<lambda>i. (of_nat i, [], of_nat i)) [0 ..< 255] @ [(0, [Frame], 0)],
      \<lparr>s_index = 1, s_last_index = 0\<rparr>)"
proof -
  have one: "allocate_n 1 \<lparr>s_index = 255, s_last_index = 254\<rparr> =
               ([(0, [Frame], 0)], \<lparr>s_index = 1, s_last_index = 0\<rparr>)"
    by (simp add: generate_id_at_255 get_pass_def)
  have "allocate_n (255 + 1) allocator_init =
     (map (\<lambda>i. (of_nat i, [], of_nat i)) [0 ..< 255] @ [(0, [Frame], 0)],
      \<lparr>s_index = 1, s_last_index = 0\<rparr>)"
    by (simp only: allocate_n_append allocate_255 one prod.case)
  then show ?thesis by simp
qed

lemma generate_id_last: "get_pass (snd (snd (generate_id a))) = fst (generate_id a)"
  by (simp add: generate_id_def get_pass_def Let_def)

lemma generate_id_never_255: "fst (generate_id a) \<noteq> 255"
  by (simp add: generate_id_def Let_def)

text \<open>
  C2, as the code has it. Starting from the reset statics, the first 255 calls return
  0, 1, ..., 254 in order and submit no frame; the 256th call submits the frame once
  and returns 0 again. After any call, from any state, \<open>get_pass\<close> answers the value the
  call returned, and no call ever returns 255.
\<close>

theorem allocate_wraparound:
  "allocate_n 256 allocator_init =
     (map (\<lambda>i. (of_nat i, [], of_nat i)) [0 ..< 255] @ [(0, [Frame], 0)],
      \<lparr>s_index = 1, s_last_index = 0\<rparr>)
   \<and> (\<forall>a. get_pass (snd (snd (generate_id a))) = fst (generate_id a))
   \<and> (\<forall>a. fst (generate_id a) \<noteq> 255)"
  using allocate_256 generate_id_last generate_id_never_255 by blast

text \<open>
  C2 as stated fails: 256 calls do not return 0, ..., 255, and the frame is submitted by
  the 256th call already.
\<close>

theorem allocate_256_slots_counterexample:
  "map fst (fst (allocate_n 256 allocator_init)) \<noteq> map of_nat [0 ..< 256]
   \<and> fst (snd (last (fst (allocate_n 256 allocator_init)))) = [Frame]"
proof -
  have "[0 ..< 256] = [0 ..< 255] @ [255::nat]"
    using upt_Suc_append [of 0 255] by simp
  then have "last (map of_nat [0 ..< 256]) = (255 :: view_id)"
    by (simp only: map_append last_snoc list.map of_nat_numeral)
  moreover have "last (map fst (fst (allocate_n 256 allocator_init))) = (0 :: view_id)"
    by (simp only: allocate_256 fst_conv map_append list.map last_snoc)
  moreover have "(0 :: view_id) \<noteq> 255" by simp
  ultimately have "map fst (fst (allocate_n 256 allocator_init)) \<noteq> map of_nat [0 ..< 256]"
    by (auto dest: arg_cong [where f = last])
  moreover have "fst (snd (last (fst (allocate_n 256 allocator_init)))) = [Frame]"
    by (simp only: allocate_256 fst_conv snd_conv last_snoc)
  ultimately show ?thesis by blast
qed

section \<open>The state machine: results\<close>

lemma generate_id_calls: "fst (snd (generate_id a)) = [] \<or> fst (snd (generate_id a)) = [Frame]"
  by (simp add: generate_id_def Let_def)

lemma filter_draw_entity:
  "filter selection_call (draw_entity idx e) = []"
  "filter warning_call (draw_entity idx e) = []"
  "filter (names_pass n) (draw_entity idx e) = []"
  "filter readback_call (draw_entity idx e) = []"
  by (simp_all add: draw_entity_def split: prod.splits)

lemma filter_draws:
  "filter selection_call (concat (map (draw_entity idx) es)) = []"
  "filter warning_call (concat (map (draw_entity idx) es)) = []"
  "filter (names_pass n) (concat (map (draw_entity idx) es)) = []"
  "filter readback_call (concat (map (draw_entity idx) es)) = []"
  by (induction es) (simp_all add: filter_draw_entity)

lemma fill_calls:
  "filter selection_call (fst (picking_buffer_fill inp a)) = []"
  "filter warning_call (fst (picking_buffer_fill inp a)) = []"
  "filter readback_call (fst (picking_buffer_fill inp a)) = []"
  "filter (names_pass ''picking_buffer_fill'') (fst (picking_buffer_fill inp a)) =
     [Set_view_name (fst (generate_id a)) ''picking_buffer_fill'']"
  using generate_id_calls [of a]
  by (auto simp: picking_buffer_fill_def render_pass_def bind_def filter_draws split: prod.splits)

lemma blit_calls:
  "filter selection_call (fst (picking_buffer_blit a)) = []"
  "filter warning_call (fst (picking_buffer_blit a)) = []"
  "filter (names_pass ''picking_buffer_fill'') (fst (picking_buffer_blit a)) = []"
  "filter readback_call (fst (picking_buffer_blit a)) = [Blit (fst (generate_id a)), Read_texture]"
  using generate_id_calls [of a]
  by (auto simp: picking_buffer_blit_def render_pass_def split: prod.splits)

lemma pick_first_calls:
  "snd (pick_first vi alive ids m k0) = [] \<or>
   snd (pick_first vi alive ids m k0) = [Select (fst (pick_first vi alive ids m k0))]"
  by (induction vi alive ids m k0 rule: pick_first.induct) simp_all

lemma decode_buffer_calls:
  "snd (decode_buffer D inp) = [] \<or> snd (decode_buffer D inp) = [Unselect] \<or>
   snd (decode_buffer D inp) = [Select (fst (decode_buffer D inp))]"
proof (cases "scan_texels (is_direct3d9 inp) (take (D * D * 4) (blit_data inp)) ([], 0)")
  case (Pair ids m)
  show ?thesis
  proof (cases "m = 0")
    case True
    then show ?thesis by (simp add: decode_buffer_def Pair)
  next
    case False
    then have "decode_buffer D inp = pick_first (valid_index inp) (entity_alive inp) ids m 0"
      by (simp add: decode_buffer_def Pair)
    then show ?thesis
      using pick_first_calls [of "valid_index inp" "entity_alive inp" ids m 0] by auto
  qed
qed

lemma decode_block_calls:
  "filter warning_call (fst (decode_block D inp ps)) = []"
  "filter (names_pass n) (fst (decode_block D inp ps)) = []"
  "filter readback_call (fst (decode_block D inp ps)) = []"
  using decode_buffer_calls [of D inp]
  by (auto simp: decode_block_def split: prod.splits)

lemma pick_request_accepted:
  assumes "click_accepted inp"
  shows "pick_request inp a ps =
           (False, fst (picking_buffer_fill inp a), snd (picking_buffer_fill inp a),
            \<lparr>reading = 0, start_readback = True\<rparr>)"
  using assms
  by (cases ps) (auto simp: pick_request_def click_accepted_def Let_def split: prod.splits)

lemma pick_request_rejected:
  assumes "mouse_left_pressed inp" "\<not> click_accepted inp"
  shows "pick_request inp a ps = (True, [], a, ps)"
  using assms by (auto simp: pick_request_def click_accepted_def)

lemma pick_request_no_click:
  assumes "\<not> mouse_left_pressed inp"
  shows "pick_request inp a ps = (False, [], a, ps)"
  using assms by (simp add: pick_request_def)

lemma start_blit_unsupported:
  assumes "\<not> blit_support inp" "reading ps = 0" "start_readback ps"
  shows "start_blit inp a ps =
           (True, [Applog_warning ''Texture blitting is not supported. Picking will not work''],
            a, idle)"
  using assms by (cases ps) (simp add: start_blit_def idle_def)

lemma start_blit_supported:
  assumes "blit_support inp" "reading ps = 0" "start_readback ps"
  shows "start_blit inp a ps =
           (False, fst (picking_buffer_blit a), snd (picking_buffer_blit a),
            \<lparr>reading = read_texture_frame inp, start_readback = False\<rparr>)"
  using assms by (cases ps) (simp add: start_blit_def split: prod.splits)

lemma start_blit_skipped:
  assumes "reading ps \<noteq> 0 \<or> \<not> start_readback ps"
  shows "start_blit inp a ps = (False, [], a, ps)"
  using assms by (auto simp: start_blit_def)

lemma frame_render_click_unsupported:
  assumes "click_accepted inp" "\<not> blit_support inp"
  shows "frame_render D inp (a, ps) =
           (fst (picking_buffer_fill inp a) @
              [Applog_warning ''Texture blitting is not supported. Picking will not work''],
            None, snd (picking_buffer_fill inp a), idle)"
  using assms
  by (simp add: frame_render_def pick_request_accepted start_blit_unsupported)

lemma frame_render_click_supported:
  assumes "click_accepted inp" "blit_support inp"
  shows "frame_render D inp (a, ps) =
           (fst (picking_buffer_fill inp a) @ fst (picking_buffer_blit (snd (picking_buffer_fill inp a)))
              @ fst (decode_block D inp \<lparr>reading = read_texture_frame inp, start_readback = False\<rparr>),
            fst (snd (decode_block D inp \<lparr>reading = read_texture_frame inp, start_readback = False\<rparr>)),
            snd (picking_buffer_blit (snd (picking_buffer_fill inp a))),
            snd (snd (decode_block D inp \<lparr>reading = read_texture_frame inp, start_readback = False\<rparr>)))"
  using assms
  by (simp add: frame_render_def pick_request_accepted start_blit_supported split: prod.splits)

lemma frame_render_pending_unsupported:
  assumes "\<not> mouse_left_pressed inp" "reading ps = 0" "start_readback ps" "\<not> blit_support inp"
  shows "frame_render D inp (a, ps) =
           ([Applog_warning ''Texture blitting is not supported. Picking will not work''],
            None, a, idle)"
  using assms
  by (simp add: frame_render_def pick_request_no_click start_blit_unsupported)

lemma frame_render_pending_supported:
  assumes "\<not> mouse_left_pressed inp" "reading ps = 0" "start_readback ps" "blit_support inp"
  shows "frame_render D inp (a, ps) =
           (fst (picking_buffer_blit a)
              @ fst (decode_block D inp \<lparr>reading = read_texture_frame inp, start_readback = False\<rparr>),
            fst (snd (decode_block D inp \<lparr>reading = read_texture_frame inp, start_readback = False\<rparr>)),
            snd (picking_buffer_blit a),
            snd (snd (decode_block D inp \<lparr>reading = read_texture_frame inp, start_readback = False\<rparr>)))"
  using assms
  by (simp add: frame_render_def pick_request_no_click start_blit_supported split: prod.splits)

lemma frame_render_rejected:
  assumes "mouse_left_pressed inp" "\<not> click_accepted inp"
  shows "frame_render D inp (a, ps) = ([], None, a, ps)"
  using assms by (simp add: frame_render_def pick_request_rejected)

lemma frame_render_waiting:
  assumes "\<not> mouse_left_pressed inp" "reading ps \<noteq> 0"
  shows "frame_render D inp (a, ps) =
           (fst (decode_block D inp ps), fst (snd (decode_block D inp ps)), a,
            snd (snd (decode_block D inp ps)))"
  using assms
  by (simp add: frame_render_def pick_request_no_click start_blit_skipped split: prod.splits)

lemmas example_defs =
  quiet_frame_def click_frame_def awaiting_10_def click_frame_no_blit_def click_frame_no_read_def
  stale_frame_def majority_frame_def tie_frame_def allocator_init_def idle_def

lemmas run_defs =
  frame_render_def pick_request_def start_blit_def decode_block_def decode_buffer_def
  picking_buffer_fill_def picking_buffer_blit_def render_pass_def generate_id_def bind_def
  draw_entity_def color_id_def calls_of_def decoded_key_def members_after_def allocator_after_def
  click_accepted_def

text \<open>
  C1, as the code has it. A click that passes the tests of the click block is never
  dropped: whatever readback is outstanding, the invocation behaves as it does from the
  idle members, it starts the pass that fills the identity buffer, and, where blit is
  supported and the texture read answers a later frame, it issues a new blit and read
  and leaves that new frame number in place of the old one, with no decode on this
  invocation.
\<close>

theorem click_while_awaiting_restarts:
  assumes "click_accepted inp"
  shows "frame_render D inp (a, ps) = frame_render D inp (a, idle)
       \<and> filter (names_pass ''picking_buffer_fill'') (calls_of (frame_render D inp (a, ps))) =
           [Set_view_name (fst (generate_id a)) ''picking_buffer_fill'']
       \<and> (blit_support inp \<and> render_frame inp < read_texture_frame inp \<longrightarrow>
            filter readback_call (calls_of (frame_render D inp (a, ps))) =
              [Blit (fst (generate_id (snd (picking_buffer_fill inp a)))), Read_texture]
            \<and> decoded_key (frame_render D inp (a, ps)) = None
            \<and> members_after (frame_render D inp (a, ps)) =
                \<lparr>reading = read_texture_frame inp, start_readback = False\<rparr>)"
proof (intro conjI impI)
  show "frame_render D inp (a, ps) = frame_render D inp (a, idle)"
    using assms by (simp add: frame_render_def pick_request_accepted)
  show "filter (names_pass ''picking_buffer_fill'') (calls_of (frame_render D inp (a, ps))) =
           [Set_view_name (fst (generate_id a)) ''picking_buffer_fill'']"
    using assms
    by (cases "blit_support inp")
       (simp_all add: frame_render_click_supported frame_render_click_unsupported calls_of_def
          fill_calls blit_calls decode_block_calls)
next
  assume b: "blit_support inp \<and> render_frame inp < read_texture_frame inp"
  then have "\<not> read_texture_frame inp \<le> render_frame inp"
    by (simp add: not_le)
  then have nd: "decode_block D inp \<lparr>reading = read_texture_frame inp, start_readback = False\<rparr> =
                  ([], None, \<lparr>reading = read_texture_frame inp, start_readback = False\<rparr>)"
    by (simp add: decode_block_def)
  show "filter readback_call (calls_of (frame_render D inp (a, ps))) =
              [Blit (fst (generate_id (snd (picking_buffer_fill inp a)))), Read_texture]"
    using assms b by (simp add: frame_render_click_supported nd calls_of_def fill_calls blit_calls)
  show "decoded_key (frame_render D inp (a, ps)) = None"
    using assms b by (simp add: frame_render_click_supported nd decoded_key_def)
  show "members_after (frame_render D inp (a, ps)) =
                \<lparr>reading = read_texture_frame inp, start_readback = False\<rparr>"
    using assms b by (simp add: frame_render_click_supported nd members_after_def)
qed

theorem click_while_awaiting_restarts_witness:
  "click_accepted click_frame
   \<and> reading awaiting_10 \<noteq> 0 \<and> render_frame click_frame < reading awaiting_10
   \<and> filter (names_pass ''picking_buffer_fill'')
        (calls_of (frame_render 1 click_frame (allocator_init, awaiting_10))) =
       [Set_view_name 0 ''picking_buffer_fill'']
   \<and> filter readback_call (calls_of (frame_render 1 click_frame (allocator_init, awaiting_10))) =
       [Blit 1, Read_texture]
   \<and> members_after (frame_render 1 click_frame (allocator_init, awaiting_10)) =
       \<lparr>reading = 7, start_readback = False\<rparr>"
proof -
  have h: "click_accepted click_frame"
    by (simp add: click_accepted_def example_defs)
  have g: "blit_support click_frame \<and> render_frame click_frame < read_texture_frame click_frame"
    by (simp add: example_defs)
  have i0: "fst (generate_id allocator_init) = 0"
    by (simp add: generate_id_def example_defs)
  have i1: "fst (generate_id (snd (picking_buffer_fill click_frame allocator_init))) = 1"
    by (simp add: picking_buffer_fill_def render_pass_def generate_id_def example_defs)
  have r: "read_texture_frame click_frame = 7" by (simp add: example_defs)
  have w: "reading awaiting_10 \<noteq> 0 \<and> render_frame click_frame < reading awaiting_10"
    by (simp add: example_defs)
  note t = click_while_awaiting_restarts [OF h, of 1 allocator_init awaiting_10]
  have "filter (names_pass ''picking_buffer_fill'')
          (calls_of (frame_render 1 click_frame (allocator_init, awaiting_10))) =
        [Set_view_name (fst (generate_id allocator_init)) ''picking_buffer_fill'']"
    using t by blast
  then have fill: "filter (names_pass ''picking_buffer_fill'')
          (calls_of (frame_render 1 click_frame (allocator_init, awaiting_10))) =
        [Set_view_name 0 ''picking_buffer_fill'']"
    by (simp only: i0)
  have "filter readback_call (calls_of (frame_render 1 click_frame (allocator_init, awaiting_10))) =
          [Blit (fst (generate_id (snd (picking_buffer_fill click_frame allocator_init)))), Read_texture]
        \<and> members_after (frame_render 1 click_frame (allocator_init, awaiting_10)) =
          \<lparr>reading = read_texture_frame click_frame, start_readback = False\<rparr>"
    using t g by blast
  then have blit: "filter readback_call (calls_of (frame_render 1 click_frame (allocator_init, awaiting_10))) =
          [Blit 1, Read_texture]
        \<and> members_after (frame_render 1 click_frame (allocator_init, awaiting_10)) =
          \<lparr>reading = 7, start_readback = False\<rparr>"
    by (simp only: i1 r)
  show ?thesis
    using h w fill blit by blast
qed

text \<open>
  C1 as stated fails: with a readback waiting for frame 10 at renderer frame 5, a click
  starts a new pass into the identity buffer and replaces the frame number waited for.
\<close>

theorem click_while_awaiting_counterexample:
  "mouse_left_pressed click_frame
   \<and> reading awaiting_10 \<noteq> 0 \<and> render_frame click_frame < reading awaiting_10
   \<and> Set_view_name 0 ''picking_buffer_fill''
        \<in> set (calls_of (frame_render 1 click_frame (allocator_init, awaiting_10)))
   \<and> members_after (frame_render 1 click_frame (allocator_init, awaiting_10)) \<noteq> awaiting_10"
  by (simp add: run_defs example_defs)

lemma decode_block_early:
  assumes "render_frame inp < reading ps"
  shows "decode_block D inp ps = ([], None, ps)"
proof -
  have "\<not> reading ps \<le> render_frame inp"
    using assms by (simp add: not_le)
  then show ?thesis by (simp add: decode_block_def)
qed


text \<open>
  C7, as the code has it. Without blit support, an invocation that reaches the blit
  block (an accepted click, or a pending request with no read outstanding) logs the
  warning once, leaves the members idle, runs no decode, and makes no blit, read,
  select or unselect call. Nothing is remembered: an accepted click fills the identity
  buffer again, and logs again, on every such invocation.
\<close>

theorem blit_unsupported_abandons:
  assumes "\<not> blit_support inp"
    and "click_accepted inp \<or> (\<not> mouse_left_pressed inp \<and> reading ps = 0 \<and> start_readback ps)"
  shows "members_after (frame_render D inp (a, ps)) = idle
       \<and> decoded_key (frame_render D inp (a, ps)) = None
       \<and> filter warning_call (calls_of (frame_render D inp (a, ps))) =
           [Applog_warning ''Texture blitting is not supported. Picking will not work'']
       \<and> filter selection_call (calls_of (frame_render D inp (a, ps))) = []
       \<and> filter readback_call (calls_of (frame_render D inp (a, ps))) = []
       \<and> (click_accepted inp \<longrightarrow>
            filter (names_pass ''picking_buffer_fill'') (calls_of (frame_render D inp (a, ps))) =
              [Set_view_name (fst (generate_id a)) ''picking_buffer_fill''])"
proof (cases "click_accepted inp")
  case True
  then show ?thesis
    using assms(1)
    by (simp add: frame_render_click_unsupported members_after_def decoded_key_def calls_of_def
        fill_calls)
next
  case False
  then have "\<not> mouse_left_pressed inp" "reading ps = 0" "start_readback ps"
    using assms(2) by auto
  then show ?thesis
    using assms(1) False
    by (simp add: frame_render_pending_unsupported members_after_def decoded_key_def calls_of_def)
qed

theorem blit_unsupported_abandons_witness:
  "\<not> blit_support click_frame_no_blit \<and> click_accepted click_frame_no_blit
   \<and> members_after (frame_render 1 click_frame_no_blit (allocator_init, idle)) = idle
   \<and> decoded_key (frame_render 1 click_frame_no_blit (allocator_init, idle)) = None
   \<and> filter warning_call (calls_of (frame_render 1 click_frame_no_blit (allocator_init, idle))) =
       [Applog_warning ''Texture blitting is not supported. Picking will not work'']
   \<and> filter selection_call (calls_of (frame_render 1 click_frame_no_blit (allocator_init, idle))) = []"
proof -
  have h1: "\<not> blit_support click_frame_no_blit"
    by (simp add: example_defs)
  have h2: "click_accepted click_frame_no_blit"
    by (simp add: click_accepted_def example_defs)
  then have h3: "click_accepted click_frame_no_blit \<or>
      (\<not> mouse_left_pressed click_frame_no_blit \<and> reading idle = 0 \<and> start_readback idle)"
    by blast
  show ?thesis
    using blit_unsupported_abandons [OF h1 h3, of 1 allocator_init] h1 h2 by blast
qed

text \<open>
  C7 as stated fails: two accepted clicks in a row on a platform without blit each fill
  the identity buffer and each log the warning.
\<close>

theorem blit_unsupported_logged_once_counterexample:
  "map (\<lambda>r. (length (filter warning_call (fst r)),
              length (filter (names_pass ''picking_buffer_fill'') (fst r))))
       (fst (run_frames 1 [click_frame_no_blit, click_frame_no_blit] (allocator_init, idle)))
   = [(1, 1), (1, 1)]"
  by (simp add: run_defs example_defs)

lemma decode_block_ran:
  assumes "fst (snd (decode_block D inp ps)) \<noteq> None"
  shows "reading ps \<noteq> 0 \<and> reading ps \<le> render_frame inp"
  using assms by (auto simp: decode_block_def split: if_splits)

text \<open>
  C8, as the code has it. While a read is outstanding, an invocation on which no click
  is accepted does nothing before the recorded frame is reached (no call, no decode,
  members and statics unchanged), and it runs the decode only when the renderer's frame
  counter has reached the recorded frame. An invocation with an accepted click runs the
  decode only when the frame number answered by its own texture read is not 0 and has
  been reached.
\<close>

theorem awaiting_fence_waits:
  "(reading ps \<noteq> 0 \<and> \<not> click_accepted inp \<and> render_frame inp < reading ps \<longrightarrow>
      frame_render D inp (a, ps) = ([], None, a, ps))
   \<and> (reading ps \<noteq> 0 \<and> \<not> click_accepted inp
        \<and> decoded_key (frame_render D inp (a, ps)) \<noteq> None \<longrightarrow>
      reading ps \<le> render_frame inp)
   \<and> (click_accepted inp \<and> decoded_key (frame_render D inp (a, ps)) \<noteq> None \<longrightarrow>
      read_texture_frame inp \<noteq> 0 \<and> read_texture_frame inp \<le> render_frame inp)"
proof (intro conjI impI)
  assume h: "reading ps \<noteq> 0 \<and> \<not> click_accepted inp \<and> render_frame inp < reading ps"
  show "frame_render D inp (a, ps) = ([], None, a, ps)"
  proof (cases "mouse_left_pressed inp")
    case True
    then show ?thesis using h by (simp add: frame_render_rejected)
  next
    case False
    then show ?thesis using h by (simp add: frame_render_waiting decode_block_early)
  qed
next
  assume h: "reading ps \<noteq> 0 \<and> \<not> click_accepted inp
             \<and> decoded_key (frame_render D inp (a, ps)) \<noteq> None"
  show "reading ps \<le> render_frame inp"
  proof (cases "mouse_left_pressed inp")
    case True
    then have "frame_render D inp (a, ps) = ([], None, a, ps)"
      using h by (simp add: frame_render_rejected)
    then show ?thesis using h by (simp add: decoded_key_def)
  next
    case False
    then have "decoded_key (frame_render D inp (a, ps)) = fst (snd (decode_block D inp ps))"
      using h by (simp add: frame_render_waiting decoded_key_def)
    then have "fst (snd (decode_block D inp ps)) \<noteq> None"
      using h by simp
    then show ?thesis using decode_block_ran by blast
  qed
next
  assume h: "click_accepted inp \<and> decoded_key (frame_render D inp (a, ps)) \<noteq> None"
  have "blit_support inp"
  proof (rule ccontr)
    assume "\<not> blit_support inp"
    then have "decoded_key (frame_render D inp (a, ps)) = None"
      using h by (simp add: frame_render_click_unsupported decoded_key_def)
    then show False using h by simp
  qed
  then have "decoded_key (frame_render D inp (a, ps)) =
               fst (snd (decode_block D inp
                 \<lparr>reading = read_texture_frame inp, start_readback = False\<rparr>))"
    using h by (simp add: frame_render_click_supported decoded_key_def)
  then have "fst (snd (decode_block D inp
               \<lparr>reading = read_texture_frame inp, start_readback = False\<rparr>)) \<noteq> None"
    using h by simp
  then have "reading \<lparr>reading = read_texture_frame inp, start_readback = False\<rparr> \<noteq> 0
             \<and> reading \<lparr>reading = read_texture_frame inp, start_readback = False\<rparr>
                  \<le> render_frame inp"
    by (rule decode_block_ran)
  then show "read_texture_frame inp \<noteq> 0" and "read_texture_frame inp \<le> render_frame inp"
    by simp_all
qed

theorem awaiting_fence_waits_witness:
  "reading awaiting_10 \<noteq> 0 \<and> \<not> click_accepted quiet_frame
   \<and> render_frame quiet_frame < reading awaiting_10
   \<and> frame_render 1 quiet_frame (allocator_init, awaiting_10) = ([], None, allocator_init, awaiting_10)
   \<and> \<not> click_accepted (quiet_frame\<lparr>render_frame := 10\<rparr>)
   \<and> decoded_key (frame_render 1 (quiet_frame\<lparr>render_frame := 10\<rparr>) (allocator_init, awaiting_10)) \<noteq> None
   \<and> reading awaiting_10 \<le> render_frame (quiet_frame\<lparr>render_frame := 10\<rparr>)"
proof -
  have h1: "reading awaiting_10 \<noteq> 0" by (simp add: example_defs)
  have h2: "\<not> click_accepted quiet_frame" by (simp add: click_accepted_def example_defs)
  have h3: "\<not> click_accepted (quiet_frame\<lparr>render_frame := 10\<rparr>)"
    by (simp add: click_accepted_def example_defs)
  have w: "render_frame quiet_frame < reading awaiting_10" by (simp add: example_defs)
  have d: "decoded_key (frame_render 1 (quiet_frame\<lparr>render_frame := 10\<rparr>) (allocator_init, awaiting_10)) \<noteq> None"
    by (simp add: run_defs example_defs split: prod.splits)
  show ?thesis
    using awaiting_fence_waits [of awaiting_10 quiet_frame 1 allocator_init]
      awaiting_fence_waits [of awaiting_10 "quiet_frame\<lparr>render_frame := 10\<rparr>" 1 allocator_init]
      h1 h2 h3 w d
    by blast
qed

text \<open>
  C8 as stated fails on an invocation with an accepted click: with a read waiting for
  frame 12 at renderer frame 9, the members change (the frame waited for becomes 11).
\<close>

theorem awaiting_fence_unchanged_counterexample:
  "reading \<lparr>reading = 12, start_readback = False\<rparr> \<noteq> 0
   \<and> render_frame (click_frame\<lparr>render_frame := 9, read_texture_frame := 11\<rparr>) < 12
   \<and> members_after (frame_render 1 (click_frame\<lparr>render_frame := 9, read_texture_frame := 11\<rparr>)
        (allocator_init, \<lparr>reading = 12, start_readback = False\<rparr>))
      = \<lparr>reading = 11, start_readback = False\<rparr>"
  by (simp add: run_defs example_defs)

text \<open>
  C10. When blit is supported and the texture read answers frame 0, an invocation that
  reaches the blit block (an accepted click, or a pending request with no read
  outstanding) leaves the members idle, does not run the decode, and makes no select
  or unselect call; and an accepted click on any later invocation starts the pass that
  fills the identity buffer and, when its read answers a later frame, waits for it.
\<close>

theorem read_not_scheduled_returns_idle:
  assumes "blit_support inp" and "read_texture_frame inp = 0"
    and "click_accepted inp \<or> (\<not> mouse_left_pressed inp \<and> reading ps = 0 \<and> start_readback ps)"
  shows "members_after (frame_render D inp (a, ps)) = idle
       \<and> decoded_key (frame_render D inp (a, ps)) = None
       \<and> filter selection_call (calls_of (frame_render D inp (a, ps))) = []
       \<and> (\<forall>nxt. click_accepted nxt \<longrightarrow>
             filter (names_pass ''picking_buffer_fill'')
               (calls_of (frame_render D nxt
                  (allocator_after (frame_render D inp (a, ps)), members_after (frame_render D inp (a, ps))))) =
             [Set_view_name (fst (generate_id (allocator_after (frame_render D inp (a, ps)))))
                ''picking_buffer_fill'']
           \<and> (blit_support nxt \<and> render_frame nxt < read_texture_frame nxt \<longrightarrow>
                members_after (frame_render D nxt
                  (allocator_after (frame_render D inp (a, ps)), members_after (frame_render D inp (a, ps)))) =
                \<lparr>reading = read_texture_frame nxt, start_readback = False\<rparr>))"
proof -
  have nd: "decode_block D inp \<lparr>reading = read_texture_frame inp, start_readback = False\<rparr> =
             ([], None, idle)"
    using assms(2) by (simp add: decode_block_def idle_def)
  have first: "members_after (frame_render D inp (a, ps)) = idle
       \<and> decoded_key (frame_render D inp (a, ps)) = None
       \<and> filter selection_call (calls_of (frame_render D inp (a, ps))) = []"
  proof (cases "click_accepted inp")
    case True
    then show ?thesis
      using assms(1)
      by (simp add: frame_render_click_supported nd members_after_def decoded_key_def calls_of_def
          fill_calls blit_calls)
  next
    case False
    then have "\<not> mouse_left_pressed inp" "reading ps = 0" "start_readback ps"
      using assms(3) by auto
    then show ?thesis
      using assms(1)
      by (simp add: frame_render_pending_supported nd members_after_def decoded_key_def calls_of_def
          blit_calls)
  qed
  have later: "filter (names_pass ''picking_buffer_fill'') (calls_of (frame_render D nxt (a', ps'))) =
             [Set_view_name (fst (generate_id a')) ''picking_buffer_fill'']
           \<and> (blit_support nxt \<and> render_frame nxt < read_texture_frame nxt \<longrightarrow>
                members_after (frame_render D nxt (a', ps')) =
                \<lparr>reading = read_texture_frame nxt, start_readback = False\<rparr>)"
    if "click_accepted nxt" for nxt a' ps'
  proof (cases "blit_support nxt")
    case True
    have "render_frame nxt < read_texture_frame nxt \<Longrightarrow>
          decode_block D nxt \<lparr>reading = read_texture_frame nxt, start_readback = False\<rparr> =
            ([], None, \<lparr>reading = read_texture_frame nxt, start_readback = False\<rparr>)"
      by (simp add: decode_block_early)
    then show ?thesis
      using that True
      by (simp add: frame_render_click_supported calls_of_def members_after_def fill_calls
          blit_calls decode_block_calls)
  next
    case False
    then show ?thesis
      using that
      by (simp add: frame_render_click_unsupported calls_of_def fill_calls)
  qed
  show ?thesis
    using first later by blast
qed

theorem read_not_scheduled_returns_idle_witness:
  "blit_support click_frame_no_read \<and> read_texture_frame click_frame_no_read = 0
   \<and> click_accepted click_frame_no_read
   \<and> members_after (frame_render 1 click_frame_no_read (allocator_init, idle)) = idle
   \<and> decoded_key (frame_render 1 click_frame_no_read (allocator_init, idle)) = None
   \<and> filter selection_call (calls_of (frame_render 1 click_frame_no_read (allocator_init, idle))) = []
   \<and> click_accepted click_frame
   \<and> members_after (frame_render 1 click_frame
        (allocator_after (frame_render 1 click_frame_no_read (allocator_init, idle)),
         members_after (frame_render 1 click_frame_no_read (allocator_init, idle)))) =
      \<lparr>reading = 7, start_readback = False\<rparr>"
proof -
  have h1: "blit_support click_frame_no_read" by (simp add: example_defs)
  have h2: "read_texture_frame click_frame_no_read = 0" by (simp add: example_defs)
  have h3: "click_accepted click_frame_no_read" by (simp add: click_accepted_def example_defs)
  then have h4: "click_accepted click_frame_no_read \<or>
      (\<not> mouse_left_pressed click_frame_no_read \<and> reading idle = 0 \<and> start_readback idle)"
    by blast
  have n1: "click_accepted click_frame" by (simp add: click_accepted_def example_defs)
  have n2: "blit_support click_frame \<and> render_frame click_frame < read_texture_frame click_frame"
    by (simp add: example_defs)
  have n3: "read_texture_frame click_frame = 7" by (simp add: example_defs)
  note t = read_not_scheduled_returns_idle [OF h1 h2 h4, of 1 allocator_init]
  have "members_after (frame_render 1 click_frame
        (allocator_after (frame_render 1 click_frame_no_read (allocator_init, idle)),
         members_after (frame_render 1 click_frame_no_read (allocator_init, idle)))) =
      \<lparr>reading = read_texture_frame click_frame, start_readback = False\<rparr>"
    using t n1 n2 by blast
  then have nx: "members_after (frame_render 1 click_frame
        (allocator_after (frame_render 1 click_frame_no_read (allocator_init, idle)),
         members_after (frame_render 1 click_frame_no_read (allocator_init, idle)))) =
      \<lparr>reading = 7, start_readback = False\<rparr>"
    by (simp only: n3)
  show ?thesis
    using t h1 h2 h3 n1 nx by blast
qed

section \<open>The colour encoding: results\<close>

lemma unat_byte_less: "unat (x :: u8) < 256"
  using unsigned_less [of x, where ?'a = nat] by simp

lemma unat_ucast_byte: "unat (ucast (x :: u8) :: u32) = unat x"
proof -
  have "unat x < 2 ^ 32"
    using unsigned_less [of x, where ?'a = nat] by simp
  then show ?thesis
    by (simp add: unsigned_ucast_eq take_bit_nat_eq_self)
qed

lemma unat_hash_key_of:
  "unat (hash_key_of rr gg bb) = unat rr + 256 * unat gg + 65536 * unat bb"
proof -
  have r: "unat rr < 256" and g: "unat gg < 256" and b: "unat bb < 256"
    by (rule unat_byte_less)+
  have g1: "unat (push_bit 8 (ucast gg :: u32)) = 256 * unat gg"
    using g by (simp add: push_bit_eq_mult unat_word_ariths unat_ucast_byte)
  have b1: "unat (push_bit 16 (ucast bb :: u32)) = 65536 * unat bb"
    using b by (simp add: push_bit_eq_mult unat_word_ariths unat_ucast_byte)
  have "unat (hash_key_of rr gg bb) = (unat rr + 256 * unat gg + 65536 * unat bb) mod 2 ^ 32"
    unfolding hash_key_of_def
    by (simp add: unat_word_ariths g1 b1 unat_ucast_byte mod_simps)
  moreover have "unat rr + 256 * unat gg + 65536 * unat bb < 2 ^ 32"
    using r g b by simp
  ultimately show ?thesis by simp
qed

lemma unat_and_255: "unat ((w :: u32) AND 0xff) = unat w mod 256"
proof -
  have "(0xff :: u32) = mask 8" by (simp add: mask_eq_exp_minus_1)
  then have "w AND 0xff = take_bit 8 w" by (simp add: take_bit_eq_mask)
  then have "unat (w AND 0xff) = unat (take_bit 8 w)" by simp
  also have "\<dots> = take_bit 8 (unat w)" by (rule unsigned_take_bit_eq)
  also have "\<dots> = unat w mod 256" by (simp add: take_bit_eq_mod)
  finally show ?thesis .
qed

lemma unat_drop_bit_u32: "unat (drop_bit n (w :: u32)) = unat w div 2 ^ n"
  by (subst unat_drop_bit_eq) (simp add: drop_bit_eq_div)

lemma unat_ucast_down: "unat (ucast (w :: u32) :: u8) = unat w mod 256"
  by (simp add: unsigned_ucast_eq take_bit_eq_mod)

lemma unat_color_bytes:
  "color_bytes i = (rr, gg, bb) \<Longrightarrow>
     unat rr = unat i mod 256 \<and> unat gg = unat i div 256 mod 256 \<and> unat bb = unat i div 65536 mod 256"
  by (auto simp: color_bytes_def color_id_def unat_ucast_down unat_and_255 unat_drop_bit_u32)


lemma split_three_bytes:
  assumes "(n::nat) < 2 ^ 24"
  shows "n mod 256 + 256 * (n div 256 mod 256) + 65536 * (n div 65536 mod 256) = n"
proof -
  have a: "n mod 65536 = 256 * (n div 256 mod 256) + n mod 256"
    using mod_mult2_eq [of n 256 256] by simp
  have "n div 65536 < 256"
    using assms by (simp add: less_mult_imp_div_less)
  then have b: "n div 65536 mod 256 = n div 65536" by simp
  have "n = 65536 * (n div 65536) + n mod 65536" by simp
  then show ?thesis unfolding a b by linarith
qed

lemma join_three_bytes:
  assumes "(r::nat) < 256" "g < 256" "b < 256"
  shows "(r + 256 * g + 65536 * b) mod 256 = r"
    and "(r + 256 * g + 65536 * b) div 256 mod 256 = g"
    and "(r + 256 * g + 65536 * b) div 65536 mod 256 = b"
proof -
  define m where "m = g + 256 * b"
  have n: "r + 256 * g + 65536 * b = r + 256 * m" by (simp add: m_def)
  have "(r + 256 * m) mod 256 = r mod 256" by (rule mod_mult_self2)
  then show "(r + 256 * g + 65536 * b) mod 256 = r"
    unfolding n using assms(1) by simp
  have "(r + 256 * m) div 256 = m + r div 256" by (rule div_mult_self2) simp
  then have d: "(r + 256 * g + 65536 * b) div 256 = m"
    unfolding n using assms(1) by simp
  have "(g + 256 * b) mod 256 = g mod 256" by (rule mod_mult_self2)
  then show "(r + 256 * g + 65536 * b) div 256 mod 256 = g"
    unfolding d m_def using assms(2) by simp
  have "(g + 256 * b) div 256 = b + g div 256" by (rule div_mult_self2) simp
  then have e: "m div 256 = b" unfolding m_def using assms(2) by simp
  have "(r + 256 * g + 65536 * b) div 65536 = (r + 256 * g + 65536 * b) div 256 div 256"
    using div_mult2_eq [of "r + 256 * g + 65536 * b" 256 256] by simp
  then have "(r + 256 * g + 65536 * b) div 65536 = b" unfolding d e .
  then show "(r + 256 * g + 65536 * b) div 65536 mod 256 = b"
    using assms(3) by simp
qed

lemma key_of_color_bytes:
  assumes "i < 2 ^ 24"
  shows "key_of (color_bytes i) = i"
proof -
  obtain rr gg bb where c: "color_bytes i = (rr, gg, bb)" by (cases "color_bytes i") auto
  have n: "unat i < 2 ^ 24" using assms by (simp add: word_less_nat_alt)
  have "unat (hash_key_of rr gg bb) = unat i mod 256 + 256 * (unat i div 256 mod 256)
          + 65536 * (unat i div 65536 mod 256)"
    using unat_color_bytes [OF c] by (simp add: unat_hash_key_of)
  also have "\<dots> = unat i" using n by (rule split_three_bytes)
  finally show ?thesis by (simp add: key_of_def c word_unat_eq_iff)
qed

lemma color_bytes_key_of: "color_bytes (key_of (rr, gg, bb)) = (rr, gg, bb)"
proof -
  obtain r g b where c: "color_bytes (hash_key_of rr gg bb) = (r, g, b)"
    by (cases "color_bytes (hash_key_of rr gg bb)") auto
  have lt: "unat rr < 256" "unat gg < 256" "unat bb < 256" by (rule unat_byte_less)+
  note u = unat_color_bytes [OF c, unfolded unat_hash_key_of]
  note j = join_three_bytes [OF lt]
  have "unat r = unat rr" "unat g = unat gg" "unat b = unat bb"
    using u j by simp_all
  then show ?thesis by (simp add: key_of_def c word_unat_eq_iff)
qed

lemma key_of_less: "key_of c < 2 ^ 24"
proof -
  obtain rr gg bb where c: "c = (rr, gg, bb)" by (cases c) auto
  have "unat rr < 256" "unat gg < 256" "unat bb < 256" by (rule unat_byte_less)+
  then have "unat (hash_key_of rr gg bb) < 2 ^ 24" by (simp add: unat_hash_key_of)
  then show ?thesis by (simp add: c key_of_def word_less_nat_alt)
qed

lemma key_of_eq_0_iff: "key_of c = 0 \<longleftrightarrow> c = (0, 0, 0)"
proof -
  obtain rr gg bb where c: "c = (rr, gg, bb)" by (cases c) auto
  have "key_of c = 0 \<longleftrightarrow> unat (hash_key_of rr gg bb) = 0"
    by (simp add: c key_of_def unat_eq_0)
  also have "\<dots> \<longleftrightarrow> unat rr = 0 \<and> unat gg = 0 \<and> unat bb = 0"
    by (simp add: unat_hash_key_of)
  finally show ?thesis by (simp add: c unat_eq_0)
qed

lemma inj_key_of: "inj key_of"
proof (rule injI)
  fix c d :: "u8 \<times> u8 \<times> u8"
  assume "key_of c = key_of d"
  then have "color_bytes (key_of c) = color_bytes (key_of d)" by simp
  then show "c = d" by (cases c, cases d) (simp add: color_bytes_key_of)
qed

text \<open>
  C3, as the code has it. For every index below \<open>2 ^ 24\<close> the key decoded from the
  colour of the index is the index, and the colour is black exactly for index 0;
  conversely every byte triple is the colour of its key, the key is below \<open>2 ^ 24\<close>, and
  only black has key 0. So the encoding is a bijection between the indices
  \<open>1, ..., 2 ^ 24 - 1\<close> and the triples that are not black.
\<close>

theorem color_id_roundtrip:
  assumes "i < 2 ^ 24"
  shows "key_of (color_bytes i) = i
       \<and> (color_bytes i = (0, 0, 0) \<longleftrightarrow> i = 0)
       \<and> (\<forall>c. color_bytes (key_of c) = c \<and> key_of c < 2 ^ 24 \<and> (key_of c = 0 \<longleftrightarrow> c = (0, 0, 0)))"
proof (intro conjI allI)
  show k: "key_of (color_bytes i) = i"
    using assms by (rule key_of_color_bytes)
  show "color_bytes i = (0, 0, 0) \<longleftrightarrow> i = 0"
    using k key_of_eq_0_iff [of "color_bytes i"] by auto
  fix c :: "u8 \<times> u8 \<times> u8"
  show "color_bytes (key_of c) = c" by (cases c) (simp add: color_bytes_key_of)
  show "key_of c < 2 ^ 24" by (rule key_of_less)
  show "key_of c = 0 \<longleftrightarrow> c = (0, 0, 0)" by (rule key_of_eq_0_iff)
qed

theorem color_id_roundtrip_witness:
  "(0x010203 :: u32) < 2 ^ 24 \<and> key_of (color_bytes 0x010203) = 0x010203
   \<and> color_bytes 0x010203 \<noteq> (0, 0, 0)"
proof -
  have h: "(0x010203 :: u32) < 2 ^ 24" by simp
  show ?thesis
    using color_id_roundtrip [OF h] h by simp
qed

text \<open>C3 as stated fails at index 0, whose colour is the black triple.\<close>

theorem color_id_zero_is_black_counterexample:
  "(0 :: u32) < 2 ^ 24 \<and> color_id 0 = (0, 0, 0) \<and> color_bytes 0 = (0, 0, 0)"
  by (simp add: color_bytes_def color_id_def)

section \<open>The histogram: results\<close>

lemma ucast_byte_eq_0: "(ucast (x :: u8) :: u32) = 0 \<longleftrightarrow> x = 0"
proof -
  have "(ucast x :: u32) = 0 \<longleftrightarrow> unat (ucast x :: u32) = 0" by (simp add: unat_eq_0)
  then show ?thesis by (simp add: unat_ucast_byte unat_eq_0)
qed

lemma black_test:
  fixes rr gg bb :: u8
  shows "0 = ((ucast rr :: u32) OR ucast gg OR ucast bb) \<longleftrightarrow> rr = 0 \<and> gg = 0 \<and> bb = 0"
proof -
  have "0 = ((ucast rr :: u32) OR ucast gg OR ucast bb) \<longleftrightarrow>
          (ucast rr :: u32) = 0 \<and> (ucast gg :: u32) = 0 \<and> (ucast bb :: u32) = 0"
    by (metis or_eq_0_iff)
  then show ?thesis by (simp add: ucast_byte_eq_0)
qed

lemma scan_texels_step:
  "scan_texels d3d9 (x0 # x1 # x2 # x3 # rest) st =
     (if (if d3d9 then (x2, x1, x0) else (x0, x1, x2)) = (0, 0, 0)
      then scan_texels d3d9 rest st
      else scan_texels d3d9 rest
             (count_key (key_of (if d3d9 then (x2, x1, x0) else (x0, x1, x2))) st))"
  using black_test [of x2 x1 x0] black_test [of x0 x1 x2]
  by (cases d3d9) (auto simp: key_of_def Let_def)

lemma texel_keys_step:
  "texel_keys d3d9 (x0 # x1 # x2 # x3 # rest) =
     (if (if d3d9 then (x2, x1, x0) else (x0, x1, x2)) = (0, 0, 0)
      then texel_keys d3d9 rest
      else key_of (if d3d9 then (x2, x1, x0) else (x0, x1, x2)) # texel_keys d3d9 rest)"
  by (simp add: texel_keys_def)

lemma scan_texels_fold:
  "scan_texels d3d9 buf st = fold count_key (texel_keys d3d9 buf) st"
proof (induction d3d9 buf st rule: scan_texels.induct)
  case (1 d3d9 x0 x1 x2 x3 rest st)
  define c where "c = (if d3d9 then (x2, x1, x0) else (x0, x1, x2))"
  have ih1: "scan_texels d3d9 rest st = fold count_key (texel_keys d3d9 rest) st"
    if "c = (0, 0, 0)"
    using "1.IH"(1) [OF refl refl refl] that black_test [of x2 x1 x0] black_test [of x0 x1 x2]
    by (cases d3d9) (auto simp: c_def)
  have ih2: "scan_texels d3d9 rest (count_key (key_of c) st) =
               fold count_key (texel_keys d3d9 rest) (count_key (key_of c) st)"
    if "c \<noteq> (0, 0, 0)"
    using "1.IH"(2) [OF refl refl refl] that black_test [of x2 x1 x0] black_test [of x0 x1 x2]
    by (cases d3d9) (auto simp: c_def key_of_def)
  show ?case
    unfolding scan_texels_step texel_keys_step c_def [symmetric]
    using ih1 ih2 by (cases "c = (0, 0, 0)") simp_all
qed (simp_all add: texel_keys_def)

lemma map_of_ids_assign: "map_of (ids_assign k v ids) = (map_of ids)(k \<mapsto> v)"
  by (induction ids) (auto simp: fun_upd_twist)

lemma keys_ids_assign:
  "fst ` set (ids_assign k v ids) = insert k (fst ` set ids)"
  by (simp add: dom_map_of_conv_image_fst [symmetric] map_of_ids_assign)

lemma sorted_ids_assign:
  "sorted_wrt (<) (map fst ids) \<Longrightarrow> sorted_wrt (<) (map fst (ids_assign k v ids))"
proof (induction ids)
  case Nil
  then show ?case by simp
next
  case (Cons p ids)
  obtain k' v' where p: "p = (k', v')" by (cases p) auto
  have rest: "sorted_wrt (<) (map fst ids)"
    using Cons.prems by simp
  have tail: "sorted_wrt (<) (map fst (ids_assign k v ids))"
    using Cons.IH rest by simp
  have above: "\<forall>x \<in> set ids. k' < fst x"
    using Cons.prems by (simp add: p)
  consider (lt) "k < k'" | (eq) "k = k'" | (gt) "k' < k" by (rule linorder_cases)
  then show ?case
  proof cases
    case lt
    have "\<forall>x \<in> set ids. k < fst x"
      using above lt by (meson less_trans)
    then show ?thesis using lt rest above by (simp add: p)
  next
    case eq
    then show ?thesis using rest above by (simp add: p)
  next
    case gt
    have "k' < fst x" if "x \<in> set (ids_assign k v ids)" for x
    proof -
      have "fst x \<in> insert k (fst ` set ids)"
        using that keys_ids_assign [of k v ids] by blast
      then show ?thesis using above gt by auto
    qed
    then have "\<forall>x \<in> set (ids_assign k v ids). k' < fst x" by blast
    moreover have "\<not> k < k'" "k \<noteq> k'" using gt by auto
    ultimately show ?thesis using tail by (simp add: p)
  qed
qed

lemma fst_count_key:
  "fst (count_key k (ids, m)) =
     ids_assign k (case map_of ids k of Some c \<Rightarrow> c + 1 | None \<Rightarrow> 1) ids"
  by (simp add: count_key_def Let_def)

lemma fold_count_key_keys:
  "fst ` set (fst (fold count_key ks (ids, m))) = fst ` set ids \<union> set ks"
proof (induction ks arbitrary: ids m)
  case Nil
  then show ?case by simp
next
  case (Cons k ks)
  obtain ids' m' where s: "count_key k (ids, m) = (ids', m')" by (cases "count_key k (ids, m)") auto
  have "fst ` set ids' = insert k (fst ` set ids)"
    using fst_count_key [of k ids m] by (simp add: s keys_ids_assign)
  then show ?case using Cons.IH [of ids' m'] by (simp add: s)
qed

lemma fold_count_key_sorted:
  "sorted_wrt (<) (map fst ids) \<Longrightarrow> sorted_wrt (<) (map fst (fst (fold count_key ks (ids, m))))"
proof (induction ks arbitrary: ids m)
  case Nil
  then show ?case by simp
next
  case (Cons k ks)
  obtain ids' m' where s: "count_key k (ids, m) = (ids', m')" by (cases "count_key k (ids, m)") auto
  have "sorted_wrt (<) (map fst ids')"
    using Cons.prems fst_count_key [of k ids m] by (simp add: s sorted_ids_assign)
  then show ?case using Cons.IH [of ids' m'] by (simp add: s)
qed

lemma count_key_max_mono: "m \<le> snd (count_key k (ids, m))"
  by (auto simp: count_key_def Let_def)

lemma fold_count_key_max_mono: "m \<le> snd (fold count_key ks (ids, m))"
proof (induction ks arbitrary: ids m)
  case Nil
  then show ?case by simp
next
  case (Cons k ks)
  obtain ids' m' where s: "count_key k (ids, m) = (ids', m')" by (cases "count_key k (ids, m)") auto
  then have "m \<le> m'" using count_key_max_mono [of m k ids] by simp
  also have "m' \<le> snd (fold count_key ks (ids', m'))" by (rule Cons.IH)
  finally show ?case by (simp add: s)
qed

lemma fold_count_key_max_nonzero:
  assumes "ks \<noteq> []"
  shows "snd (fold count_key ks ([], 0)) \<noteq> 0"
proof -
  obtain k ks' where ks: "ks = k # ks'" using assms by (cases ks) auto
  have s: "count_key k ([], 0) = ([(k, 1)], 1)" by (simp add: count_key_def)
  have "1 \<le> snd (fold count_key ks' ([(k, 1)], 1))" by (rule fold_count_key_max_mono)
  then have "1 \<le> snd (fold count_key ks ([], 0))" by (simp add: ks s)
  then show ?thesis by auto
qed

lemma texel_keys_nonzero: "0 \<notin> set (texel_keys d3d9 buf)"
  by (auto simp: texel_keys_def key_of_eq_0_iff)

lemma pick_first_selects_key:
  "Select k \<in> set (snd (pick_first vi alive ids m k0)) \<Longrightarrow> k \<in> fst ` set ids"
  by (induction vi alive ids m k0 rule: pick_first.induct) (auto split: if_splits)

lemma pick_first_not_live:
  "\<not> (vi (fst (pick_first vi alive ids m k0)) \<and> alive (fst (pick_first vi alive ids m k0)))
     \<Longrightarrow> snd (pick_first vi alive ids m k0) = []"
  by (induction vi alive ids m k0 rule: pick_first.induct) (auto split: if_splits)

lemma decode_buffer_fold:
  "decode_buffer D inp =
     (case fold count_key (texel_keys (is_direct3d9 inp) (take (D * D * 4) (blit_data inp))) ([], 0) of
        (ids, max_amount) \<Rightarrow>
          (if max_amount \<noteq> 0
           then pick_first (valid_index inp) (entity_alive inp) ids max_amount 0
           else (0, [Unselect])))"
  by (simp add: decode_buffer_def scan_texels_fold)

lemma texel_keys_eq_Nil_iff:
  "texel_keys d3d9 buf = [] \<longleftrightarrow> (\<forall>c \<in> set (texel_colors d3d9 buf). c = (0, 0, 0))"
  by (auto simp: texel_keys_def filter_empty_conv)

lemmas decode_defs =
  count_key_def hash_key_of_def staged_def key_of_def

text \<open>
  C5. Whatever the staging bytes, the histogram built by the decode loop has no entry
  for key 0, the key of the black triple, and the decode never selects index 0; and
  when every texel is black the decode makes exactly one call, the unselect.
\<close>

theorem background_never_selected:
  "0 \<notin> fst ` set (fst (scan_texels d3d9 buf ([], 0)))
   \<and> key_of (0, 0, 0) = 0
   \<and> Select 0 \<notin> set (snd (decode_buffer D inp))
   \<and> ((\<forall>c \<in> set (staged D inp). c = (0, 0, 0)) \<longrightarrow> decode_buffer D inp = (0, [Unselect]))"
proof (intro conjI impI)
  show "0 \<notin> fst ` set (fst (scan_texels d3d9 buf ([], 0)))"
    using texel_keys_nonzero [of d3d9 buf]
    by (simp add: scan_texels_fold fold_count_key_keys)
  show "key_of (0, 0, 0) = 0" by (simp add: key_of_eq_0_iff)
  show "Select 0 \<notin> set (snd (decode_buffer D inp))"
  proof
    assume sel: "Select 0 \<in> set (snd (decode_buffer D inp))"
    obtain ids m where f: "fold count_key
        (texel_keys (is_direct3d9 inp) (take (D * D * 4) (blit_data inp))) ([], 0) = (ids, m)"
      by (cases "fold count_key
        (texel_keys (is_direct3d9 inp) (take (D * D * 4) (blit_data inp))) ([], 0)") auto
    have keys: "0 \<notin> fst ` set ids"
      using fold_count_key_keys [of "texel_keys (is_direct3d9 inp) (take (D * D * 4) (blit_data inp))" "[]" 0]
        texel_keys_nonzero [of "is_direct3d9 inp" "take (D * D * 4) (blit_data inp)"]
      by (simp add: f)
    have "Select 0 \<in> set (snd (pick_first (valid_index inp) (entity_alive inp) ids m 0))"
      using sel by (cases "m = 0") (simp_all add: decode_buffer_fold f)
    then show False using pick_first_selects_key keys by blast
  qed
next
  assume "\<forall>c \<in> set (staged D inp). c = (0, 0, 0)"
  then have "texel_keys (is_direct3d9 inp) (take (D * D * 4) (blit_data inp)) = []"
    by (simp add: texel_keys_eq_Nil_iff staged_def)
  then show "decode_buffer D inp = (0, [Unselect])"
    by (simp add: decode_buffer_fold)
qed

theorem background_never_selected_witness:
  "staged 1 quiet_frame = [(0, 0, 0)]
   \<and> decode_buffer 1 quiet_frame = (0, [Unselect])"
proof -
  have s: "staged 1 quiet_frame = [(0, 0, 0)]"
    by (simp add: staged_def example_defs)
  then have h: "\<forall>c \<in> set (staged 1 quiet_frame). c = (0, 0, 0)"
    by simp
  show ?thesis
    using background_never_selected [of False "[]" 1 quiet_frame] h s by blast
qed

text \<open>
  C6, as the code has it. When some texel is not black and the key the histogram loop
  stops at is not the index of a live entity (\<open>valid_index\<close> fails, or the entity
  fetched for it tests false), the decode makes no call at all: it neither selects nor
  unselects.
\<close>

theorem stale_index_emits_nothing:
  assumes "\<exists>c \<in> set (staged D inp). c \<noteq> (0, 0, 0)"
    and "\<not> (valid_index inp (fst (decode_buffer D inp)) \<and> entity_alive inp (fst (decode_buffer D inp)))"
  shows "snd (decode_buffer D inp) = []"
proof -
  let ?ks = "texel_keys (is_direct3d9 inp) (take (D * D * 4) (blit_data inp))"
  obtain ids m where f: "fold count_key ?ks ([], 0) = (ids, m)"
    by (cases "fold count_key ?ks ([], 0)") auto
  have "?ks \<noteq> []"
    using assms(1) by (simp add: texel_keys_eq_Nil_iff staged_def)
  then have "m \<noteq> 0"
    using fold_count_key_max_nonzero [of ?ks] by (simp add: f)
  then have d: "decode_buffer D inp = pick_first (valid_index inp) (entity_alive inp) ids m 0"
    by (simp add: decode_buffer_fold f)
  show ?thesis
    using assms(2) unfolding d by (rule pick_first_not_live)
qed

theorem stale_index_emits_nothing_witness:
  "(\<exists>c \<in> set (staged 1 stale_frame). c \<noteq> (0, 0, 0))
   \<and> fst (decode_buffer 1 stale_frame) = 9 \<and> \<not> valid_index stale_frame 9
   \<and> snd (decode_buffer 1 stale_frame) = []"
proof -
  have h1: "\<exists>c \<in> set (staged 1 stale_frame). c \<noteq> (0, 0, 0)"
    by (simp add: staged_def example_defs)
  have k: "fst (decode_buffer 1 stale_frame) = 9"
    by (simp add: decode_buffer_def decode_defs example_defs)
  have v: "\<not> valid_index stale_frame 9"
    by (simp add: example_defs)
  then have h2: "\<not> (valid_index stale_frame (fst (decode_buffer 1 stale_frame))
                   \<and> entity_alive stale_frame (fst (decode_buffer 1 stale_frame)))"
    by (simp only: k) simp
  show ?thesis
    using stale_index_emits_nothing [OF h1 h2] h1 k v by blast
qed

text \<open>
  C6 as stated fails: with the read due and one texel of key 9 staged, an index that is
  not valid, the invocation runs the decode, stops at key 9, and calls nothing; no
  unselect is made.
\<close>

theorem stale_index_deselect_counterexample:
  "decoded_key (frame_render 1 stale_frame (allocator_init, awaiting_10)) = Some 9
   \<and> \<not> valid_index stale_frame 9
   \<and> Unselect \<notin> set (calls_of (frame_render 1 stale_frame (allocator_init, awaiting_10)))
   \<and> calls_of (frame_render 1 stale_frame (allocator_init, awaiting_10)) = []"
  by (simp add: run_defs decode_defs example_defs)

lemma count_key_pair:
  "count_key k (ids, m) =
     (ids_assign k (case map_of ids k of Some c \<Rightarrow> c + 1 | None \<Rightarrow> 1) ids,
      if (case map_of ids k of Some c \<Rightarrow> c + 1 | None \<Rightarrow> 1) < m then m
      else (case map_of ids k of Some c \<Rightarrow> c + 1 | None \<Rightarrow> 1))"
  by (simp add: count_key_def Let_def)

lemma unat_of_nat_u32:
  assumes "n < 2 ^ 32"
  shows "unat (of_nat n :: u32) = n"
  using assms by (simp add: unat_of_nat)

lemma histogram_counts:
  assumes "length ks < 2 ^ 32"
  shows "map_of (fst (fold count_key ks ([], 0))) =
           (\<lambda>k. if k \<in> set ks then Some (of_nat (count_list ks k)) else None)
       \<and> (\<forall>k. count_list ks k \<le> unat (snd (fold count_key ks ([], 0))))
       \<and> (ks \<noteq> [] \<longrightarrow> (\<exists>k \<in> set ks. count_list ks k = unat (snd (fold count_key ks ([], 0)))))"
  using assms
proof (induction ks rule: rev_induct)
  case Nil
  then show ?case by auto
next
  case (snoc k ks)
  obtain ids m where f: "fold count_key ks ([], 0) = (ids, m)"
    by (cases "fold count_key ks ([], 0)") auto
  have len: "length ks < 2 ^ 32" using snoc.prems by simp
  note ih = snoc.IH [OF len, unfolded f fst_conv snd_conv]
  have ih_map: "map_of ids = (\<lambda>k. if k \<in> set ks then Some (of_nat (count_list ks k)) else None)"
    and ih_le: "\<And>j. count_list ks j \<le> unat m"
    and ih_ex: "ks \<noteq> [] \<Longrightarrow> \<exists>j \<in> set ks. count_list ks j = unat m"
    using ih by auto
  define a where "a = (case map_of ids k of Some c \<Rightarrow> c + 1 | None \<Rightarrow> 1)"
  have a_eq: "a = of_nat (Suc (count_list ks k))"
  proof (cases "k \<in> set ks")
    case True
    then show ?thesis by (simp add: a_def ih_map)
  next
    case False
    then have "count_list ks k = 0" by (simp add: count_list_0_iff)
    then show ?thesis using False by (simp add: a_def ih_map)
  qed
  have "count_list ks k \<le> length ks" by (rule count_le_length)
  then have "Suc (count_list ks k) < 2 ^ 32" using snoc.prems by simp
  then have ua: "unat a = Suc (count_list ks k)"
    unfolding a_eq by (rule unat_of_nat_u32)
  define m' where "m' = (if a < m then m else a)"
  have step: "fold count_key (ks @ [k]) ([], 0) = (ids_assign k a ids, m')"
    by (simp add: f count_key_pair a_def m'_def)
  have um: "unat m' = max (unat m) (Suc (count_list ks k))"
    using ua by (auto simp: m'_def word_less_nat_alt)
  have p1: "map_of (ids_assign k a ids) =
              (\<lambda>j. if j \<in> set (ks @ [k]) then Some (of_nat (count_list (ks @ [k]) j)) else None)"
  proof
    fix j
    show "map_of (ids_assign k a ids) j =
            (if j \<in> set (ks @ [k]) then Some (of_nat (count_list (ks @ [k]) j)) else None)"
      by (cases "j = k") (simp_all add: map_of_ids_assign a_eq ih_map)
  qed
  have p2: "count_list (ks @ [k]) j \<le> unat m'" for j
    using ih_le [of j] by (cases "j = k") (simp_all add: um)
  have p3: "\<exists>j \<in> set (ks @ [k]). count_list (ks @ [k]) j = unat m'"
  proof (cases "a < m")
    case True
    then have lt: "Suc (count_list ks k) < unat m"
      using ua by (simp add: word_less_nat_alt)
    have "ks = [] \<Longrightarrow> m = 0" using f by simp
    then have "ks \<noteq> []" using lt by auto
    then obtain j where j: "j \<in> set ks" "count_list ks j = unat m"
      using ih_ex by blast
    then have "j \<noteq> k" using lt by auto
    then have "count_list (ks @ [k]) j = unat m'"
      using j True by (simp add: m'_def)
    moreover have "j \<in> set (ks @ [k])" using j(1) by simp
    ultimately show ?thesis by blast
  next
    case False
    then have "count_list (ks @ [k]) k = unat m'"
      by (simp add: m'_def ua)
    moreover have "k \<in> set (ks @ [k])" by simp
    ultimately show ?thesis by blast
  qed
  show ?case
    unfolding step fst_conv snd_conv using p1 p2 p3 by blast
qed

lemma pick_first_least:
  assumes "sorted_wrt (<) (map fst ids)"
    and "(K, m) \<in> set ids"
    and "\<forall>p \<in> set ids. snd p = m \<longrightarrow> K \<le> fst p"
  shows "pick_first vi alive ids m k0 =
           (K, if vi K then (if alive K then [Select K] else []) else [])"
  using assms
proof (induction ids)
  case Nil
  then show ?case by simp
next
  case (Cons p ids)
  obtain k c where p: "p = (k, c)" by (cases p) auto
  show ?case
  proof (cases "c = m")
    case True
    have le: "K \<le> k" using Cons.prems(3) True by (simp add: p)
    have "K = k"
    proof (rule ccontr)
      assume ne: "K \<noteq> k"
      then have "(K, m) \<in> set ids" using Cons.prems(2) by (simp add: p)
      then have "k < K" using Cons.prems(1) by (auto simp: p)
      then show False using le by simp
    qed
    then show ?thesis using True by (simp add: p)
  next
    case False
    then have "(K, m) \<in> set ids" using Cons.prems(2) by (auto simp: p)
    moreover have "sorted_wrt (<) (map fst ids)" using Cons.prems(1) by simp
    moreover have "\<forall>p \<in> set ids. snd p = m \<longrightarrow> K \<le> fst p" using Cons.prems(3) by simp
    ultimately show ?thesis using Cons.IH False by (simp add: p)
  qed
qed

lemma winner_key:
  assumes "length ks < 2 ^ 32"
    and "K \<in> set ks"
    and "\<forall>k. count_list ks k \<le> count_list ks K"
    and "\<forall>k. count_list ks k = count_list ks K \<longrightarrow> K \<le> k"
  shows "snd (fold count_key ks ([], 0)) \<noteq> 0
       \<and> pick_first vi alive (fst (fold count_key ks ([], 0))) (snd (fold count_key ks ([], 0))) k0 =
           (K, if vi K then (if alive K then [Select K] else []) else [])"
proof -
  obtain ids m where f: "fold count_key ks ([], 0) = (ids, m)"
    by (cases "fold count_key ks ([], 0)") auto
  note h = histogram_counts [OF assms(1), unfolded f fst_conv snd_conv]
  have h_map: "map_of ids = (\<lambda>k. if k \<in> set ks then Some (of_nat (count_list ks k)) else None)"
    and h_le: "\<And>j. count_list ks j \<le> unat m"
    using h by auto
  have ne: "ks \<noteq> []" using assms(2) by auto
  then obtain j where j: "j \<in> set ks" "count_list ks j = unat m" using h by blast
  have top: "count_list ks K = unat m"
    using assms(3) j(2) h_le [of K] by (metis le_antisym)
  have small: "count_list ks k < 2 ^ 32" for k
    using count_le_length [of ks k] assms(1) by simp
  have conv: "(of_nat (count_list ks k) :: u32) = m \<longleftrightarrow> count_list ks k = unat m" for k
    using unat_of_nat_u32 [OF small [of k]] by (auto simp: word_unat_eq_iff)
  have pos: "0 < count_list ks K" using assms(2) count_list_0_iff [of ks K] by auto
  then have m0: "m \<noteq> 0" using top by (auto simp: unat_eq_0)
  have srt: "sorted_wrt (<) (map fst ids)"
    using fold_count_key_sorted [of "[]" ks 0] by (simp add: f)
  then have dst: "distinct (map fst ids)" by (simp add: strict_sorted_iff)
  have mem: "(k, c) \<in> set ids \<longleftrightarrow> k \<in> set ks \<and> c = of_nat (count_list ks k)" for k c
    using map_of_eq_Some_iff [OF dst, of k c] by (auto simp: h_map split: if_splits)
  have "(K, m) \<in> set ids"
    using assms(2) top conv [of K] by (simp add: mem)
  moreover have "\<forall>p \<in> set ids. snd p = m \<longrightarrow> K \<le> fst p"
  proof (intro ballI impI)
    fix p assume p: "p \<in> set ids" "snd p = m"
    obtain k c where kc: "p = (k, c)" by (cases p) auto
    have "of_nat (count_list ks k) = m" using p mem [of k c] by (simp add: kc)
    then have "count_list ks k = count_list ks K" using conv [of k] top by simp
    then show "K \<le> fst p" using assms(4) by (simp add: kc)
  qed
  ultimately have "pick_first vi alive ids m k0 =
           (K, if vi K then (if alive K then [Select K] else []) else [])"
    using srt by (intro pick_first_least)
  then show ?thesis using m0 by (simp add: f)
qed

lemma count_list_filter:
  "count_list (filter P xs) x = (if P x then count_list xs x else 0)"
  by (induction xs) auto

lemma count_texel_keys:
  assumes "c \<noteq> (0, 0, 0)"
  shows "count_list (texel_keys d3d9 buf) (key_of c) = count_list (texel_colors d3d9 buf) c"
  using assms by (simp add: texel_keys_def count_list_map_conv [OF inj_key_of] count_list_filter)

lemma texel_keys_image:
  assumes "k \<in> set (texel_keys d3d9 buf)"
  shows "\<exists>c. c \<noteq> (0, 0, 0) \<and> c \<in> set (texel_colors d3d9 buf) \<and> k = key_of c"
  using assms by (auto simp: texel_keys_def)

lemma length_texel_colors: "length (texel_colors d3d9 buf) \<le> length buf"
  by (induction d3d9 buf rule: texel_colors.induct) simp_all

lemma length_texel_keys: "length (texel_keys d3d9 buf) \<le> length buf"
proof -
  have "length (texel_keys d3d9 buf) \<le> length (texel_colors d3d9 buf)"
    by (simp add: texel_keys_def)
  then show ?thesis using length_texel_colors [of d3d9 buf] by simp
qed

lemma staged_keys_short:
  assumes "D * D * 4 < 2 ^ 31"
  shows "length (texel_keys b (take (D * D * 4) buf)) < 2 ^ 32"
proof -
  have "length (texel_keys b (take (D * D * 4) buf)) \<le> length (take (D * D * 4) buf)"
    by (rule length_texel_keys)
  also have "\<dots> \<le> D * D * 4" by simp
  finally show ?thesis using assms by simp
qed

text \<open>
  The decode on staged colours: when a colour that is not black occurs, has the greatest
  count among such colours, and has the least key among those that reach that count,
  the loop over the histogram stops at its key.
\<close>

lemma decode_buffer_winner:
  assumes "D * D * 4 < 2 ^ 31"
    and "C \<in> set (staged D inp)" "C \<noteq> (0, 0, 0)"
    and "\<forall>c. c \<noteq> (0, 0, 0) \<longrightarrow> count_list (staged D inp) c \<le> count_list (staged D inp) C"
    and "\<forall>c. c \<noteq> (0, 0, 0) \<and> count_list (staged D inp) c = count_list (staged D inp) C
            \<longrightarrow> key_of C \<le> key_of c"
  shows "decode_buffer D inp =
           (key_of C,
            if valid_index inp (key_of C)
            then (if entity_alive inp (key_of C) then [Select (key_of C)] else []) else [])"
proof -
  let ?buf = "take (D * D * 4) (blit_data inp)"
  let ?ks = "texel_keys (is_direct3d9 inp) ?buf"
  let ?cols = "texel_colors (is_direct3d9 inp) ?buf"
  have cols: "staged D inp = ?cols" by (simp add: staged_def)
  have len: "length ?ks < 2 ^ 32" using assms(1) by (rule staged_keys_short)
  have cnt: "count_list ?ks (key_of c) = count_list ?cols c" if "c \<noteq> (0, 0, 0)" for c
    using that by (rule count_texel_keys)
  have a4: "count_list ?cols c \<le> count_list ?cols C" if "c \<noteq> (0, 0, 0)" for c
    using assms(4) that unfolding cols by blast
  have a5: "key_of C \<le> key_of c"
    if "c \<noteq> (0, 0, 0)" "count_list ?cols c = count_list ?cols C" for c
    using assms(5) that unfolding cols by blast
  have K: "key_of C \<in> set ?ks"
    using assms(2,3) by (auto simp: texel_keys_def cols)
  have posC: "0 < count_list ?cols C"
    using assms(2) count_list_0_iff [of ?cols C] by (auto simp: cols)
  have le: "\<forall>k. count_list ?ks k \<le> count_list ?ks (key_of C)"
  proof
    fix k
    show "count_list ?ks k \<le> count_list ?ks (key_of C)"
    proof (cases "k \<in> set ?ks")
      case True
      then obtain c where c: "c \<noteq> (0, 0, 0)" "k = key_of c" using texel_keys_image by blast
      then show ?thesis using a4 [OF c(1)] cnt [OF c(1)] cnt [OF assms(3)] by simp
    next
      case False
      then have "count_list ?ks k = 0" by (simp add: count_list_0_iff)
      then show ?thesis by simp
    qed
  qed
  have least: "\<forall>k. count_list ?ks k = count_list ?ks (key_of C) \<longrightarrow> key_of C \<le> k"
  proof (intro allI impI)
    fix k assume eq: "count_list ?ks k = count_list ?ks (key_of C)"
    then have "0 < count_list ?ks k" using posC cnt [OF assms(3)] by simp
    then have "k \<in> set ?ks" using count_list_0_iff [of ?ks k] by auto
    then obtain c where c: "c \<noteq> (0, 0, 0)" "k = key_of c" using texel_keys_image by blast
    have "count_list ?cols c = count_list ?cols C"
      using eq cnt [OF c(1)] cnt [OF assms(3)] by (simp add: c(2))
    then show "key_of C \<le> k" using a5 [OF c(1)] c(2) by simp
  qed
  note w = winner_key [OF len K le least, of "valid_index inp" "entity_alive inp" 0]
  obtain ids m where f: "fold count_key ?ks ([], 0) = (ids, m)"
    by (cases "fold count_key ?ks ([], 0)") auto
  show ?thesis
    using w by (simp add: decode_buffer_fold f)
qed

text \<open>
  C4. Let the staging buffer hold \<open>tex_id_dim * tex_id_dim\<close> texels (\<open>tex_id_dim\<close> is an
  \<open>int\<close> constant and the byte count is computed in \<open>int\<close>, hence the bound). If the
  colour of index \<open>A\<close> is not black and occurs strictly more often than every other
  colour that is not black, and \<open>A\<close> is the index of a live entity, then the decode makes
  exactly one call, the selection of \<open>A\<close>, however many texels are black.
\<close>

theorem majority_selects:
  assumes "D * D * 4 < 2 ^ 31"
    and "A < 2 ^ 24" and "C = color_bytes A" and "C \<noteq> (0, 0, 0)"
    and "\<forall>c. c \<noteq> (0, 0, 0) \<and> c \<noteq> C \<longrightarrow> count_list (staged D inp) c < count_list (staged D inp) C"
    and "valid_index inp A" and "entity_alive inp A"
  shows "decode_buffer D inp = (A, [Select A])"
proof -
  have key: "key_of C = A"
    using assms(2,3) by (simp add: key_of_color_bytes)
  have less: "count_list (staged D inp) c < count_list (staged D inp) C"
    if "c \<noteq> (0, 0, 0)" "c \<noteq> C" for c
    using assms(5) that by blast
  obtain c' :: "u8 \<times> u8 \<times> u8" where c': "c' \<noteq> (0, 0, 0)" "c' \<noteq> C"
  proof (cases "C = (1, 0, 0)")
    case True
    then have "(2 :: u8, 0 :: u8, 0 :: u8) \<noteq> (0, 0, 0) \<and> (2, 0, 0) \<noteq> C" by simp
    then show ?thesis using that by blast
  next
    case False
    then have "(1 :: u8, 0 :: u8, 0 :: u8) \<noteq> (0, 0, 0) \<and> (1, 0, 0) \<noteq> C" by simp
    then show ?thesis using that by blast
  qed
  have "0 < count_list (staged D inp) C"
    using less [OF c'] by simp
  then have mem: "C \<in> set (staged D inp)"
    using count_list_0_iff [of "staged D inp" C] by auto
  have le: "\<forall>c. c \<noteq> (0, 0, 0) \<longrightarrow> count_list (staged D inp) c \<le> count_list (staged D inp) C"
  proof (intro allI impI)
    fix c :: "u8 \<times> u8 \<times> u8"
    assume "c \<noteq> (0, 0, 0)"
    then show "count_list (staged D inp) c \<le> count_list (staged D inp) C"
      using less [of c] by (cases "c = C") simp_all
  qed
  have tie: "\<forall>c. c \<noteq> (0, 0, 0) \<and> count_list (staged D inp) c = count_list (staged D inp) C
            \<longrightarrow> key_of C \<le> key_of c"
  proof (intro allI impI)
    fix c :: "u8 \<times> u8 \<times> u8"
    assume "c \<noteq> (0, 0, 0) \<and> count_list (staged D inp) c = count_list (staged D inp) C"
    then have "c = C" using less [of c] by auto
    then show "key_of C \<le> key_of c" by simp
  qed
  show ?thesis
    using decode_buffer_winner [OF assms(1) mem assms(4) le tie] assms(6,7)
    by (simp add: key)
qed

theorem majority_selects_witness:
  "(2::nat) * 2 * 4 < 2 ^ 31 \<and> (5 :: u32) < 2 ^ 24 \<and> color_bytes 5 = (5, 0, 0)
   \<and> staged 2 majority_frame = [(5, 0, 0), (3, 0, 0), (0, 0, 0), (5, 0, 0)]
   \<and> valid_index majority_frame 5 \<and> entity_alive majority_frame 5
   \<and> decode_buffer 2 majority_frame = (5, [Select 5])"
proof -
  have h1: "(2::nat) * 2 * 4 < 2 ^ 31" by simp
  have h2: "(5 :: u32) < 2 ^ 24" by simp
  have h3: "(5 :: u8, 0 :: u8, 0 :: u8) = color_bytes 5"
    by (simp add: color_bytes_def color_id_def)
  have h4: "(5 :: u8, 0 :: u8, 0 :: u8) \<noteq> (0, 0, 0)" by simp
  have st: "staged 2 majority_frame = [(5, 0, 0), (3, 0, 0), (0, 0, 0), (5, 0, 0)]"
    by (simp add: staged_def example_defs)
  have h5: "\<forall>c. c \<noteq> (0, 0, 0) \<and> c \<noteq> (5, 0, 0) \<longrightarrow>
              count_list (staged 2 majority_frame) c < count_list (staged 2 majority_frame) (5, 0, 0)"
    unfolding st by auto
  have h6: "valid_index majority_frame 5" by (simp add: example_defs)
  have h7: "entity_alive majority_frame 5" by (simp add: example_defs)
  show ?thesis
    using majority_selects [OF h1 h2 h3 h4 h5 h6 h7] h1 h2 h3 st h6 h7 by simp
qed

text \<open>
  C9. The key the decode stops at is a function of the staged bytes and the renderer
  type alone, and a tie is settled by key order: when two or more colours that are not
  black share the greatest count, the loop stops at the least of their keys (the
  histogram is walked in ascending key order), in any two runs over the same buffer.
\<close>

theorem tie_break_lowest_key:
  assumes "D * D * 4 < 2 ^ 31"
    and "C1 \<in> set (staged D inp)" and "C1 \<noteq> (0, 0, 0)"
    and "C2 \<in> set (staged D inp)" and "C2 \<noteq> (0, 0, 0)" and "C1 \<noteq> C2"
    and "count_list (staged D inp) C2 = count_list (staged D inp) C1"
    and "\<forall>c. c \<noteq> (0, 0, 0) \<longrightarrow> count_list (staged D inp) c \<le> count_list (staged D inp) C1"
    and "\<forall>c. c \<noteq> (0, 0, 0) \<and> count_list (staged D inp) c = count_list (staged D inp) C1
            \<longrightarrow> key_of C1 \<le> key_of c"
    and "is_direct3d9 inp' = is_direct3d9 inp" and "blit_data inp' = blit_data inp"
  shows "fst (decode_buffer D inp) = key_of C1
       \<and> fst (decode_buffer D inp') = key_of C1
       \<and> key_of C1 < key_of C2"
proof -
  have same: "staged D inp' = staged D inp"
    using assms(10,11) by (simp add: staged_def)
  have one: "fst (decode_buffer D inp) = key_of C1"
    using decode_buffer_winner [OF assms(1,2,3,8,9)] by simp
  have two: "fst (decode_buffer D inp') = key_of C1"
    using decode_buffer_winner [of D C1 inp'] assms(1,2,3,8,9) unfolding same by simp
  have "key_of C1 \<le> key_of C2" using assms(5,7,9) by blast
  moreover have "key_of C1 \<noteq> key_of C2"
    using assms(6) inj_key_of by (auto dest: injD)
  ultimately have "key_of C1 < key_of C2" by simp
  then show ?thesis using one two by blast
qed

theorem tie_break_lowest_key_witness:
  "(2::nat) * 2 * 4 < 2 ^ 31
   \<and> staged 2 tie_frame = [(6, 0, 0), (2, 0, 0), (2, 0, 0), (6, 0, 0)]
   \<and> key_of (2, 0, 0) = 2 \<and> key_of (6, 0, 0) = 6
   \<and> fst (decode_buffer 2 tie_frame) = 2
   \<and> fst (decode_buffer 2 (tie_frame\<lparr>valid_index := (\<lambda>i. False)\<rparr>)) = 2"
proof -
  have h1: "(2::nat) * 2 * 4 < 2 ^ 31" by simp
  have st: "staged 2 tie_frame = [(6, 0, 0), (2, 0, 0), (2, 0, 0), (6, 0, 0)]"
    by (simp add: staged_def example_defs)
  have k2: "key_of (2, 0, 0) = 2" by (simp add: key_of_def hash_key_of_def)
  have k6: "key_of (6, 0, 0) = 6" by (simp add: key_of_def hash_key_of_def)
  have h2: "(2, 0, 0) \<in> set (staged 2 tie_frame)" unfolding st by simp
  have h3: "(2 :: u8, 0 :: u8, 0 :: u8) \<noteq> (0, 0, 0)" by simp
  have h4: "(6, 0, 0) \<in> set (staged 2 tie_frame)" unfolding st by simp
  have h5: "(6 :: u8, 0 :: u8, 0 :: u8) \<noteq> (0, 0, 0)" by simp
  have h6: "(2 :: u8, 0 :: u8, 0 :: u8) \<noteq> (6, 0, 0)" by simp
  have h7: "count_list (staged 2 tie_frame) (6, 0, 0) = count_list (staged 2 tie_frame) (2, 0, 0)"
    unfolding st by simp
  have h8: "\<forall>c. c \<noteq> (0, 0, 0) \<longrightarrow>
              count_list (staged 2 tie_frame) c \<le> count_list (staged 2 tie_frame) (2, 0, 0)"
    unfolding st by auto
  have h9: "\<forall>c. c \<noteq> (0, 0, 0) \<and>
              count_list (staged 2 tie_frame) c = count_list (staged 2 tie_frame) (2, 0, 0)
              \<longrightarrow> key_of (2, 0, 0) \<le> key_of c"
    unfolding st using k2 k6 by (auto split: if_splits)
  have h10: "is_direct3d9 (tie_frame\<lparr>valid_index := (\<lambda>i. False)\<rparr>) = is_direct3d9 tie_frame"
    by simp
  have h11: "blit_data (tie_frame\<lparr>valid_index := (\<lambda>i. False)\<rparr>) = blit_data tie_frame"
    by simp
  show ?thesis
    using tie_break_lowest_key [OF h1 h2 h3 h4 h5 h6 h7 h8 h9 h10 h11] h1 st k2 k6
    by simp
qed

end
